theory Spec2Isabelle
  imports Main
begin

section \<open>Strings and console output\<close>

text \<open>
  Python strings are modelled as HOL strings (lists of 8-bit characters, that is the
  Latin-1 range of code points); \<open>len\<close> is \<open>length\<close> and \<open>+\<close> is \<open>@\<close>.
\<close>

abbreviation NL :: string where
  "NL \<equiv> [CHR 0x0A]"

text \<open>\<^verbatim>\<open>sep.join(xs)\<close>.\<close>

fun join :: "string \<Rightarrow> string list \<Rightarrow> string" where
  "join sep [] = []"
| "join sep [x] = x"
| "join sep (x # y # ys) = x @ sep @ join sep (y # ys)"

text \<open>\<^verbatim>\<open>s.startswith(p)\<close>.\<close>

definition startswith :: "string \<Rightarrow> string \<Rightarrow> bool" where
  "startswith s p = (take (length p) s = p)"

text \<open>
  \<^verbatim>\<open>s.lower()\<close> on code points below 256: the ASCII capitals and the Latin-1 capitals
  (all of 192..222 but the multiplication sign 215) move up by 32.
\<close>

definition lower_char :: "char \<Rightarrow> char" where
  "lower_char c =
     (let n = (of_char c :: nat)
      in if (65 \<le> n \<and> n \<le> 90) \<or> (192 \<le> n \<and> n \<le> 222 \<and> n \<noteq> 215)
         then char_of (n + 32) else c)"

definition lower :: "string \<Rightarrow> string" where
  "lower s = map lower_char s"

text \<open>The decimal numeral an f-string prints for a length or a counter.\<close>

definition digit :: "nat \<Rightarrow> char" where
  "digit d = char_of (48 + d)"

fun str_nat :: "nat \<Rightarrow> string" where
  "str_nat n = (if n < 10 then [digit n] else str_nat (n div 10) @ [digit (n mod 10)])"

declare str_nat.simps [simp del]

section \<open>The world outside the program\<close>

text \<open>
  The libraries and services the program calls are parameters of the model. An extractor's
  \<^verbatim>\<open>try\<close> body either raises (\<open>Inl\<close> the exception's text) or returns the text (\<open>Inr\<close>).
  Reading a text file distinguishes \<^verbatim>\<open>UnicodeDecodeError\<close> from every other exception,
  as the handlers of \<^verbatim>\<open>extract_text_from_text_file\<close> do. The completion backend is
  given the number of calls made before this one and the prompt, and either raises or
  returns the message content. Writing the output file either succeeds (\<open>None\<close>) or
  raises.
\<close>

datatype encoding = Utf8 | Latin1

datatype read_error = UnicodeDecodeError string | OtherError string

fun error_text :: "read_error \<Rightarrow> string" where
  "error_text (UnicodeDecodeError m) = m"
| "error_text (OtherError m) = m"

record world =
  path_exists :: "string \<Rightarrow> bool"
  splitext :: "string \<Rightarrow> string \<times> string"
  fetch_url :: "string \<Rightarrow> string + string"
  read_pdf :: "string \<Rightarrow> string + string"
  read_docx :: "string \<Rightarrow> string + string"
  read_csv :: "string \<Rightarrow> string + string"
  read_text :: "encoding \<Rightarrow> string \<Rightarrow> read_error + string"
  split_text :: "nat \<Rightarrow> nat \<Rightarrow> string \<Rightarrow> string list"
  completion :: "nat \<Rightarrow> string \<Rightarrow> string + string"
  write_file :: "string \<Rightarrow> string \<Rightarrow> string option"

text \<open>
  What a run has done so far: the lines printed (one entry per \<^verbatim>\<open>print\<close> call), the
  prompts sent to the backend, and the files written (path and content).
\<close>

record pstate =
  console :: "string list"
  llm_calls :: "string list"
  files :: "(string \<times> string) list"

definition init_state :: pstate where
  "init_state = \<lparr>console = [], llm_calls = [], files = []\<rparr>"

definition say :: "string \<Rightarrow> pstate \<Rightarrow> pstate" where
  "say line st = st\<lparr>console := console st @ [line]\<rparr>"

text \<open>How a run ends early: \<^verbatim>\<open>sys.exit(code)\<close>, or an exception nobody catches.\<close>

datatype failure = SystemExit nat | IndexError

section \<open>Extractors\<close>

definition extract_text_from_url :: "world \<Rightarrow> string \<Rightarrow> pstate \<Rightarrow> string option \<times> pstate" where
  "extract_text_from_url w url st =
     (case fetch_url w url of
        Inr text \<Rightarrow> (Some text, st)
      | Inl e \<Rightarrow> (None, say (''Error extracting text from URL '' @ url @ '': '' @ e) st))"

definition extract_text_from_pdf :: "world \<Rightarrow> string \<Rightarrow> pstate \<Rightarrow> string option \<times> pstate" where
  "extract_text_from_pdf w file_path st =
     (case read_pdf w file_path of
        Inr text \<Rightarrow> (Some text, st)
      | Inl e \<Rightarrow> (None, say (''Error extracting text from PDF '' @ file_path @ '': '' @ e) st))"

definition extract_text_from_docx :: "world \<Rightarrow> string \<Rightarrow> pstate \<Rightarrow> string option \<times> pstate" where
  "extract_text_from_docx w file_path st =
     (case read_docx w file_path of
        Inr text \<Rightarrow> (Some text, st)
      | Inl e \<Rightarrow> (None, say (''Error extracting text from DOCX '' @ file_path @ '': '' @ e) st))"

definition extract_text_from_csv :: "world \<Rightarrow> string \<Rightarrow> pstate \<Rightarrow> string option \<times> pstate" where
  "extract_text_from_csv w file_path st =
     (case read_csv w file_path of
        Inr text \<Rightarrow> (Some text, st)
      | Inl e \<Rightarrow> (None, say (''Error extracting text from CSV '' @ file_path @ '': '' @ e) st))"

definition extract_text_from_text_file :: "world \<Rightarrow> string \<Rightarrow> pstate \<Rightarrow> string option \<times> pstate" where
  "extract_text_from_text_file w file_path st =
     (case read_text w Utf8 file_path of
        Inr text \<Rightarrow> (Some text, st)
      | Inl (UnicodeDecodeError m) \<Rightarrow>
          (case read_text w Latin1 file_path of
             Inr text \<Rightarrow> (Some text, st)
           | Inl e \<Rightarrow>
               (None, say (''Error extracting text from file '' @ file_path @ '': '' @ error_text e) st))
      | Inl (OtherError m) \<Rightarrow>
          (None, say (''Error extracting text from file '' @ file_path @ '': '' @ m) st))"

section \<open>The source router\<close>

definition is_url :: "string \<Rightarrow> bool" where
  "is_url input_source = (startswith input_source ''http://'' \<or> startswith input_source ''https://'')"

definition process_input :: "world \<Rightarrow> string \<Rightarrow> pstate \<Rightarrow> string option \<times> pstate" where
  "process_input w input_source st =
     (if is_url input_source then
        extract_text_from_url w input_source (say (''Processing URL: '' @ input_source) st)
      else if \<not> path_exists w input_source then
        (None, say (''Error: File not found: '' @ input_source) st)
      else
        let file_extension = lower (snd (splitext w input_source));
            st1 = say (''Processing file: '' @ input_source) st
        in if file_extension = ''.pdf'' then extract_text_from_pdf w input_source st1
           else if file_extension = ''.docx'' then extract_text_from_docx w input_source st1
           else if file_extension = ''.csv'' then extract_text_from_csv w input_source st1
           else if file_extension \<in> set [''.txt'', ''.md'', ''.json'', ''.html'', ''.htm'']
             then extract_text_from_text_file w input_source st1
           else extract_text_from_text_file w input_source
                  (say (''Warning: Unrecognized file extension for '' @ input_source
                        @ ''. Trying as text file.'') st1))"

section \<open>Chunker and completion client\<close>

definition split_text_into_chunks :: "world \<Rightarrow> string \<Rightarrow> nat \<Rightarrow> nat \<Rightarrow> string list" where
  "split_text_into_chunks w text chunk_size chunk_overlap =
     split_text w chunk_size chunk_overlap text"

text \<open>
  The prompt of \<^verbatim>\<open>process_with_llm\<close>. \<^verbatim>\<open>not query\<close> holds for \<^verbatim>\<open>None\<close> and for the
  empty string.
\<close>

definition make_prompt :: "string \<Rightarrow> string option \<Rightarrow> string" where
  "make_prompt content query =
     (case query of
        None \<Rightarrow> ''Please summarize the following content concisely:'' @ NL @ NL @ content
      | Some q \<Rightarrow>
          if q = [] then ''Please summarize the following content concisely:'' @ NL @ NL @ content
          else q @ NL @ NL @ ''Content:'' @ NL @ content)"

definition process_with_llm ::
  "world \<Rightarrow> string \<Rightarrow> string option \<Rightarrow> pstate \<Rightarrow> (failure + string) \<times> pstate" where
  "process_with_llm w content query st =
     (let prompt = make_prompt content query;
          st1 = st\<lparr>llm_calls := llm_calls st @ [prompt]\<rparr>
      in case completion w (length (llm_calls st)) prompt of
           Inr response \<Rightarrow> (Inr response, st1)
         | Inl e \<Rightarrow> (Inl (SystemExit 1), say (''Error calling OpenAI API: '' @ e) st1))"

section \<open>The orchestrator\<close>

record args =
  inputs :: "string list"
  query :: "string option"
  output_path :: "string option"
  verbose :: bool

text \<open>The loop over \<^verbatim>\<open>args.inputs\<close>; \<^verbatim>\<open>if content\<close> fails for \<^verbatim>\<open>None\<close> and for \<^verbatim>\<open>""\<close>.\<close>

fun collect :: "world \<Rightarrow> args \<Rightarrow> string list \<Rightarrow> string list \<Rightarrow> pstate \<Rightarrow> string list \<times> pstate" where
  "collect w a [] all_content st = (all_content, st)"
| "collect w a (input_source # rest) all_content st =
     (case process_input w input_source st of
        (None, st1) \<Rightarrow> collect w a rest all_content st1
      | (Some content, st1) \<Rightarrow>
          if content = [] then collect w a rest all_content st1
          else collect w a rest (all_content @ [content])
                 (if verbose a
                  then say (''Extracted '' @ str_nat (length content) @ '' characters from ''
                            @ input_source) st1
                  else st1))"

definition banner :: string where
  "banner = NL @ NL @ replicate 30 (CHR ''-'') @ '' DOCUMENT SEPARATOR '' @ replicate 30 (CHR ''-'')"

text \<open>
  \<^verbatim>\<open>"\n\n" + "-" * 30 + " DOCUMENT SEPARATOR " + "-" * 30 + "\n\n".join(all_content)\<close>:
  the method call binds tighter than \<^verbatim>\<open>+\<close>, so the joining string is \<^verbatim>\<open>"\n\n"\<close>.
\<close>

definition combine :: "string list \<Rightarrow> string" where
  "combine all_content = banner @ join (NL @ NL) all_content"

text \<open>The loop \<^verbatim>\<open>for i, chunk in enumerate(chunks)\<close>.\<close>

fun process_chunks ::
  "world \<Rightarrow> args \<Rightarrow> nat \<Rightarrow> nat \<Rightarrow> string list \<Rightarrow> string list \<Rightarrow> pstate
   \<Rightarrow> (failure + string list) \<times> pstate" where
  "process_chunks w a n i [] results st = (Inr results, st)"
| "process_chunks w a n i (chunk # rest) results st =
     (case process_with_llm w chunk (query a)
             (if verbose a
              then say (''Processing chunk '' @ str_nat (i + 1) @ ''/'' @ str_nat n) st
              else st) of
        (Inl f, st1) \<Rightarrow> (Inl f, st1)
      | (Inr result, st1) \<Rightarrow> process_chunks w a n (i + 1) rest (results @ [result]) st1)"

definition reduce_directive :: string where
  "reduce_directive =
     ''Combine the following summaries into a coherent single summary, removing redundancies:''"

text \<open>The size decision and both of its branches (lines 329 to 360 of \<^verbatim>\<open>main\<close>).\<close>

definition summarise :: "world \<Rightarrow> args \<Rightarrow> string \<Rightarrow> pstate \<Rightarrow> (failure + string) \<times> pstate" where
  "summarise w a combined_content st =
     (if length combined_content > 4000 then
        let st1 = (if verbose a
                   then say (''Content size ('' @ str_nat (length combined_content)
                             @ '' chars) exceeds processing limit. Chunking content...'') st
                   else st);
            chunks = split_text_into_chunks w combined_content 2000 200;
            st2 = (if verbose a
                   then say (''Split content into '' @ str_nat (length chunks) @ '' chunks'') st1
                   else st1)
        in case process_chunks w a (length chunks) 0 chunks [] st2 of
             (Inl f, st3) \<Rightarrow> (Inl f, st3)
           | (Inr results, st3) \<Rightarrow>
               if length results > 1 then
                 process_with_llm w (join (NL @ NL) results) (Some reduce_directive)
                   (if verbose a then say ''Combining results from multiple chunks...'' st3
                    else st3)
               else (case results of
                       [] \<Rightarrow> (Inl IndexError, st3)
                     | result # _ \<Rightarrow> (Inr result, st3))
      else process_with_llm w combined_content (query a) st)"

text \<open>The output step (lines 363 to 376); \<^verbatim>\<open>if args.output\<close> fails for \<^verbatim>\<open>None\<close> and \<^verbatim>\<open>""\<close>.\<close>

definition frame :: string where
  "frame = replicate 80 (CHR ''='')"

definition print_framed :: "string \<Rightarrow> pstate \<Rightarrow> pstate" where
  "print_framed final_result st =
     say (NL @ frame) (say final_result (say (NL @ frame @ NL) st))"

definition emit :: "world \<Rightarrow> args \<Rightarrow> string \<Rightarrow> pstate \<Rightarrow> pstate" where
  "emit w a final_result st =
     (case output_path a of
        None \<Rightarrow> print_framed final_result st
      | Some path \<Rightarrow>
          if path = [] then print_framed final_result st
          else (case write_file w path final_result of
                  None \<Rightarrow> say (''Output written to '' @ path)
                            (st\<lparr>files := files st @ [(path, final_result)]\<rparr>)
                | Some e \<Rightarrow> say final_result (say (''Error writing to output file: '' @ e) st)))"

definition no_content_message :: string where
  "no_content_message = ''Error: No content could be extracted from the provided inputs.''"

definition main :: "world \<Rightarrow> args \<Rightarrow> (failure + string) \<times> pstate" where
  "main w a =
     (case collect w a (inputs a) [] init_state of
        (all_content, st1) \<Rightarrow>
          if all_content = [] then (Inl (SystemExit 1), say no_content_message st1)
          else (case summarise w a (combine all_content) st1 of
                  (Inl f, st2) \<Rightarrow> (Inl f, st2)
                | (Inr final_result, st2) \<Rightarrow> (Inr final_result, emit w a final_result st2)))"

section \<open>Observations used in the statements\<close>

text \<open>What the router returns for an input, and what it prints, started from a silent state.\<close>

definition extracted :: "world \<Rightarrow> string \<Rightarrow> string option" where
  "extracted w input_source = fst (process_input w input_source init_state)"

definition process_log :: "world \<Rightarrow> string \<Rightarrow> string list" where
  "process_log w input_source = console (snd (process_input w input_source init_state))"

text \<open>An input yields content when its extraction returns a non-empty text.\<close>

definition yields_content :: "world \<Rightarrow> string \<Rightarrow> bool" where
  "yields_content w input_source =
     (case extracted w input_source of None \<Rightarrow> False | Some content \<Rightarrow> content \<noteq> [])"

text \<open>The one-line diagnostics the program prints for an input whose extraction failed.\<close>

definition is_diagnostic_for :: "string \<Rightarrow> string \<Rightarrow> bool" where
  "is_diagnostic_for input_source line =
     (line = ''Error: File not found: '' @ input_source
      \<or> list_ex (\<lambda>kind. startswith line
                   (''Error extracting text from '' @ kind @ '' '' @ input_source @ '': ''))
           [''URL'', ''PDF'', ''DOCX'', ''CSV'', ''file''])"

text \<open>Two runs agree when they differ at most in what they printed.\<close>

definition agree :: "'r \<times> pstate \<Rightarrow> 'r \<times> pstate \<Rightarrow> bool" where
  "agree x y =
     (fst x = fst y \<and> llm_calls (snd x) = llm_calls (snd y) \<and> files (snd x) = files (snd y))"

text \<open>Every call of a list of prompts, numbered from 0, was answered by the backend.\<close>

definition all_answered :: "world \<Rightarrow> string list \<Rightarrow> bool" where
  "all_answered w calls = (\<forall>i < length calls. \<exists>r. completion w i (calls ! i) = Inr r)"

text \<open>The last call raised, the ones before it were answered, and the run reported it and exited.\<close>

definition backend_failed :: "world \<Rightarrow> (failure + 'r) \<times> pstate \<Rightarrow> bool" where
  "backend_failed w x =
     (\<exists>cs p e. llm_calls (snd x) = cs @ [p] \<and> all_answered w cs
        \<and> completion w (length cs) p = Inl e
        \<and> fst x = Inl (SystemExit 1)
        \<and> console (snd x) \<noteq> []
        \<and> last (console (snd x)) = ''Error calling OpenAI API: '' @ e)"

text \<open>A step that only prints: its result and its lines do not depend on the state.\<close>

definition logs_only :: "(pstate \<Rightarrow> 'a \<times> pstate) \<Rightarrow> bool" where
  "logs_only f = (\<exists>r log. \<forall>st. f st = (r, st\<lparr>console := console st @ log\<rparr>))"

text \<open>The documents of the inputs that yield content, in the order of the inputs.\<close>

definition kept :: "world \<Rightarrow> string list \<Rightarrow> string list" where
  "kept w srcs = map (\<lambda>s. the (extracted w s)) (filter (yields_content w) srcs)"

text \<open>A run that exits with a status does so because the backend raised.\<close>

definition exit_explained :: "world \<Rightarrow> (failure + 'r) \<times> pstate \<Rightarrow> bool" where
  "exit_explained w x =
     ((all_answered w (llm_calls (snd x)) \<and> (\<forall>n. fst x \<noteq> Inl (SystemExit n)))
      \<or> backend_failed w x)"

text \<open>\<^verbatim>\<open>s.endswith(p)\<close>.\<close>

definition endswith :: "string \<Rightarrow> string \<Rightarrow> bool" where
  "endswith s p = (length p \<le> length s \<and> drop (length s - length p) s = p)"

text \<open>
  The shape of the lines that are printed only under the verbose flag: the count of
  characters extracted from an input, the size of a corpus that is chunked, the number of
  chunks, the chunk being processed, and the start of the reduce step.
\<close>

definition is_progress_message :: "string \<Rightarrow> bool" where
  "is_progress_message line =
     (startswith line ''Extracted ''
      \<or> (startswith line ''Content size (''
          \<and> endswith line '' chars) exceeds processing limit. Chunking content...'')
      \<or> (startswith line ''Split content into '' \<and> endswith line '' chunks'')
      \<or> startswith line ''Processing chunk ''
      \<or> line = ''Combining results from multiple chunks...'')"

text \<open>
  \<open>only_adds P xs ys\<close>: the list \<open>ys\<close> is the list \<open>xs\<close> with further elements
  inserted, each of which satisfies \<open>P\<close>; the elements of \<open>xs\<close> all occur in \<open>ys\<close>, in
  their order.
\<close>

fun only_adds :: "('a \<Rightarrow> bool) \<Rightarrow> 'a list \<Rightarrow> 'a list \<Rightarrow> bool" where
  "only_adds P [] ys = list_all P ys"
| "only_adds P (x # xs) [] = False"
| "only_adds P (x # xs) (y # ys) =
     ((x = y \<and> only_adds P xs ys) \<or> (P y \<and> only_adds P (x # xs) ys))"

text \<open>
  A quiet state and a verbose one: the same calls, the same files, and a console that
  differs by progress messages only.
\<close>

definition quieter :: "pstate \<Rightarrow> pstate \<Rightarrow> bool" where
  "quieter s t =
     (llm_calls s = llm_calls t \<and> files s = files t
      \<and> only_adds is_progress_message (console s) (console t))"

section \<open>A concrete world for running the model\<close>

text \<open>
  \<^verbatim>\<open>os.path.splitext\<close> as the Python standard library defines it for POSIX paths: the
  extension starts at the last dot of the last path component, unless that component
  consists of leading dots only up to there.
\<close>

fun rfind :: "char \<Rightarrow> string \<Rightarrow> int" where
  "rfind c [] = - 1"
| "rfind c (x # xs) =
     (let r = rfind c xs in if 0 \<le> r then r + 1 else if x = c then 0 else - 1)"

definition posix_splitext :: "string \<Rightarrow> string \<times> string" where
  "posix_splitext p =
     (let sepIndex = rfind (CHR ''/'') p;
          dotIndex = rfind (CHR ''.'') p
      in if dotIndex > sepIndex
            \<and> list_ex (\<lambda>c. c \<noteq> CHR ''.'')
                (take (nat (dotIndex - (sepIndex + 1))) (drop (nat (sepIndex + 1)) p))
         then (take (nat dotIndex) p, drop (nat dotIndex) p)
         else (p, []))"

text \<open>
  A small file system, a splitter cutting two overlapping windows, and a backend and a
  file writer chosen by the caller.
\<close>

definition demo_read :: "encoding \<Rightarrow> string \<Rightarrow> read_error + string" where
  "demo_read enc p =
     (if p = ''empty.txt'' then Inr []
      else if p = ''exact.txt'' then Inr (replicate 3918 (CHR ''a''))
      else if p = ''long.txt'' then Inr (replicate 5000 (CHR ''b''))
      else if p = ''broken.txt'' then Inl (OtherError ''Permission denied'')
      else Inr ''hello'')"

definition demo_world ::
  "(nat \<Rightarrow> string \<Rightarrow> string + string) \<Rightarrow> (string \<Rightarrow> string \<Rightarrow> string option) \<Rightarrow> world" where
  "demo_world backend writer =
     \<lparr>path_exists = (\<lambda>p. p \<noteq> ''missing.txt''),
      splitext = posix_splitext,
      fetch_url = (\<lambda>u. Inl ''timed out''),
      read_pdf = (\<lambda>p. Inr ''pdf text''),
      read_docx = (\<lambda>p. Inr ''docx text''),
      read_csv = (\<lambda>p. Inr ''a, b''),
      read_text = demo_read,
      split_text = (\<lambda>size overlap t. [take size t, drop (size - overlap) t]),
      completion = backend,
      write_file = writer\<rparr>"

definition answering :: "nat \<Rightarrow> string \<Rightarrow> string + string" where
  "answering i p = Inr (''summary '' @ str_nat i)"

definition failing_at :: "nat \<Rightarrow> nat \<Rightarrow> string \<Rightarrow> string + string" where
  "failing_at k i p = (if i = k then Inl ''quota exceeded'' else Inr (''summary '' @ str_nat i))"

definition writable :: "string \<Rightarrow> string \<Rightarrow> string option" where
  "writable path content = None"


definition demo_args :: "string list \<Rightarrow> args" where
  "demo_args srcs = \<lparr>inputs = srcs, query = None, output_path = None, verbose = False\<rparr>"

section \<open>The router only prints\<close>



lemma logs_only_say: "logs_only f \<Longrightarrow> logs_only (\<lambda>st. f (say m st))"
  unfolding logs_only_def
proof (elim exE)
  fix r log assume h: "\<forall>st. f st = (r, st\<lparr>console := console st @ log\<rparr>)"
  have "\<forall>st. f (say m st) = (r, st\<lparr>console := console st @ (m # log)\<rparr>)"
    by (simp add: h say_def)
  then show "\<exists>r log. \<forall>st. f (say m st) = (r, st\<lparr>console := console st @ log\<rparr>)" by blast
qed

lemma logs_only_const: "logs_only (\<lambda>st. (r, say m st))"
  unfolding logs_only_def say_def by blast

lemma logs_only_id: "logs_only (\<lambda>st. (r, st))"
proof -
  have "\<forall>st::pstate. (r, st) = (r, st\<lparr>console := console st @ []\<rparr>)" by simp
  then show ?thesis unfolding logs_only_def by blast
qed

lemma logs_only_url: "logs_only (extract_text_from_url w s)"
proof (cases "fetch_url w s")
  case (Inl e)
  then have "extract_text_from_url w s = (\<lambda>st. (None, say (''Error extracting text from URL '' @ s @ '': '' @ e) st))"
    by (simp add: extract_text_from_url_def fun_eq_iff)
  then show ?thesis by (simp only: logs_only_const)
next
  case (Inr t)
  then have "extract_text_from_url w s = (\<lambda>st. (Some t, st))"
    by (simp add: extract_text_from_url_def fun_eq_iff)
  then show ?thesis by (simp only: logs_only_id)
qed

lemma logs_only_pdf: "logs_only (extract_text_from_pdf w s)"
proof (cases "read_pdf w s")
  case (Inl e)
  then have "extract_text_from_pdf w s = (\<lambda>st. (None, say (''Error extracting text from PDF '' @ s @ '': '' @ e) st))"
    by (simp add: extract_text_from_pdf_def fun_eq_iff)
  then show ?thesis by (simp only: logs_only_const)
next
  case (Inr t)
  then have "extract_text_from_pdf w s = (\<lambda>st. (Some t, st))"
    by (simp add: extract_text_from_pdf_def fun_eq_iff)
  then show ?thesis by (simp only: logs_only_id)
qed

lemma logs_only_docx: "logs_only (extract_text_from_docx w s)"
proof (cases "read_docx w s")
  case (Inl e)
  then have "extract_text_from_docx w s = (\<lambda>st. (None, say (''Error extracting text from DOCX '' @ s @ '': '' @ e) st))"
    by (simp add: extract_text_from_docx_def fun_eq_iff)
  then show ?thesis by (simp only: logs_only_const)
next
  case (Inr t)
  then have "extract_text_from_docx w s = (\<lambda>st. (Some t, st))"
    by (simp add: extract_text_from_docx_def fun_eq_iff)
  then show ?thesis by (simp only: logs_only_id)
qed

lemma logs_only_csv: "logs_only (extract_text_from_csv w s)"
proof (cases "read_csv w s")
  case (Inl e)
  then have "extract_text_from_csv w s = (\<lambda>st. (None, say (''Error extracting text from CSV '' @ s @ '': '' @ e) st))"
    by (simp add: extract_text_from_csv_def fun_eq_iff)
  then show ?thesis by (simp only: logs_only_const)
next
  case (Inr t)
  then have "extract_text_from_csv w s = (\<lambda>st. (Some t, st))"
    by (simp add: extract_text_from_csv_def fun_eq_iff)
  then show ?thesis by (simp only: logs_only_id)
qed

lemma logs_only_text: "logs_only (extract_text_from_text_file w s)"
proof (cases "read_text w Utf8 s")
  case (Inr t)
  then have "extract_text_from_text_file w s = (\<lambda>st. (Some t, st))"
    by (simp add: extract_text_from_text_file_def fun_eq_iff)
  then show ?thesis by (simp only: logs_only_id)
next
  case (Inl err)
  show ?thesis
  proof (cases err)
    case (OtherError m)
    with Inl have "extract_text_from_text_file w s
        = (\<lambda>st. (None, say (''Error extracting text from file '' @ s @ '': '' @ m) st))"
      by (simp add: extract_text_from_text_file_def fun_eq_iff)
    then show ?thesis by (simp only: logs_only_const)
  next
    case (UnicodeDecodeError m)
    show ?thesis
    proof (cases "read_text w Latin1 s")
      case (Inr t)
      with Inl UnicodeDecodeError have "extract_text_from_text_file w s = (\<lambda>st. (Some t, st))"
        by (simp add: extract_text_from_text_file_def fun_eq_iff)
      then show ?thesis by (simp only: logs_only_id)
    next
      case (Inl e2)
      with \<open>read_text w Utf8 s = Inl err\<close> UnicodeDecodeError
      have "extract_text_from_text_file w s
        = (\<lambda>st. (None, say (''Error extracting text from file '' @ s @ '': '' @ error_text e2) st))"
        by (simp add: extract_text_from_text_file_def fun_eq_iff)
      then show ?thesis by (simp only: logs_only_const)
    qed
  qed
qed

lemma process_input_url:
  "is_url s \<Longrightarrow> process_input w s st
     = extract_text_from_url w s (say (''Processing URL: '' @ s) st)"
  by (simp add: process_input_def)

lemma process_input_missing:
  "\<not> is_url s \<Longrightarrow> \<not> path_exists w s \<Longrightarrow>
   process_input w s st = (None, say (''Error: File not found: '' @ s) st)"
  by (simp add: process_input_def)

lemma process_input_pdf:
  "\<not> is_url s \<Longrightarrow> path_exists w s \<Longrightarrow> lower (snd (splitext w s)) = ''.pdf'' \<Longrightarrow>
   process_input w s st = extract_text_from_pdf w s (say (''Processing file: '' @ s) st)"
  by (simp add: process_input_def)

lemma process_input_docx:
  "\<not> is_url s \<Longrightarrow> path_exists w s \<Longrightarrow> lower (snd (splitext w s)) = ''.docx'' \<Longrightarrow>
   process_input w s st = extract_text_from_docx w s (say (''Processing file: '' @ s) st)"
  by (simp add: process_input_def)

lemma process_input_csv:
  "\<not> is_url s \<Longrightarrow> path_exists w s \<Longrightarrow> lower (snd (splitext w s)) = ''.csv'' \<Longrightarrow>
   process_input w s st = extract_text_from_csv w s (say (''Processing file: '' @ s) st)"
  by (simp add: process_input_def)

lemma process_input_text:
  "\<not> is_url s \<Longrightarrow> path_exists w s \<Longrightarrow>
   lower (snd (splitext w s)) \<in> set [''.txt'', ''.md'', ''.json'', ''.html'', ''.htm''] \<Longrightarrow>
   process_input w s st = extract_text_from_text_file w s (say (''Processing file: '' @ s) st)"
  by (auto simp add: process_input_def)

lemma process_input_other:
  "\<not> is_url s \<Longrightarrow> path_exists w s \<Longrightarrow>
   lower (snd (splitext w s))
     \<notin> set [''.pdf'', ''.docx'', ''.csv'', ''.txt'', ''.md'', ''.json'', ''.html'', ''.htm''] \<Longrightarrow>
   process_input w s st
     = extract_text_from_text_file w s
         (say (''Warning: Unrecognized file extension for '' @ s @ ''. Trying as text file.'')
            (say (''Processing file: '' @ s) st))"
  by (simp add: process_input_def)

lemma logs_only_process_input: "logs_only (process_input w s)"
proof -
  let ?e = "lower (snd (splitext w s))"
  consider (url) "is_url s"
    | (missing) "\<not> is_url s" "\<not> path_exists w s"
    | (pdf) "\<not> is_url s" "path_exists w s" "?e = ''.pdf''"
    | (docx) "\<not> is_url s" "path_exists w s" "?e = ''.docx''"
    | (csv) "\<not> is_url s" "path_exists w s" "?e = ''.csv''"
    | (plain) "\<not> is_url s" "path_exists w s"
        "?e \<in> set [''.txt'', ''.md'', ''.json'', ''.html'', ''.htm'']"
    | (other) "\<not> is_url s" "path_exists w s"
        "?e \<notin> set [''.pdf'', ''.docx'', ''.csv'', ''.txt'', ''.md'', ''.json'', ''.html'', ''.htm'']"
    by auto
  then show ?thesis
  proof cases
    case url
    then have "process_input w s
        = (\<lambda>st. extract_text_from_url w s (say (''Processing URL: '' @ s) st))"
      by (simp add: process_input_url fun_eq_iff)
    then show ?thesis by (simp only: logs_only_say [OF logs_only_url])
  next
    case missing
    then have "process_input w s = (\<lambda>st. (None, say (''Error: File not found: '' @ s) st))"
      by (simp add: process_input_missing fun_eq_iff)
    then show ?thesis by (simp only: logs_only_const)
  next
    case pdf
    then have "process_input w s
        = (\<lambda>st. extract_text_from_pdf w s (say (''Processing file: '' @ s) st))"
      by (simp add: process_input_pdf fun_eq_iff)
    then show ?thesis by (simp only: logs_only_say [OF logs_only_pdf])
  next
    case docx
    then have "process_input w s
        = (\<lambda>st. extract_text_from_docx w s (say (''Processing file: '' @ s) st))"
      by (simp add: process_input_docx fun_eq_iff)
    then show ?thesis by (simp only: logs_only_say [OF logs_only_docx])
  next
    case csv
    then have "process_input w s
        = (\<lambda>st. extract_text_from_csv w s (say (''Processing file: '' @ s) st))"
      by (simp add: process_input_csv fun_eq_iff)
    then show ?thesis by (simp only: logs_only_say [OF logs_only_csv])
  next
    case plain
    then have "process_input w s
        = (\<lambda>st. extract_text_from_text_file w s (say (''Processing file: '' @ s) st))"
      by (simp add: process_input_text fun_eq_iff)
    then show ?thesis by (simp only: logs_only_say [OF logs_only_text])
  next
    case other
    then have "process_input w s
        = (\<lambda>st. extract_text_from_text_file w s
            (say (''Warning: Unrecognized file extension for '' @ s @ ''. Trying as text file.'')
               (say (''Processing file: '' @ s) st)))"
      by (simp add: process_input_other fun_eq_iff)
    then show ?thesis by (simp only: logs_only_say [OF logs_only_say [OF logs_only_text]])
  qed
qed

lemma process_input_decomp:
  "process_input w s st = (extracted w s, st\<lparr>console := console st @ process_log w s\<rparr>)"
proof -
  obtain r log where h: "\<And>st. process_input w s st = (r, st\<lparr>console := console st @ log\<rparr>)"
    using logs_only_process_input [of w s] unfolding logs_only_def by blast
  have "extracted w s = r" "process_log w s = log"
    by (simp_all add: extracted_def process_log_def h init_state_def)
  with h show ?thesis by simp
qed

section \<open>Collecting the inputs\<close>

lemma kept_Cons:
  "kept w (s # ss) = (if yields_content w s then the (extracted w s) # kept w ss else kept w ss)"
  by (simp add: kept_def)

lemma kept_append: "kept w (xs @ ys) = kept w xs @ kept w ys"
  by (simp add: kept_def)

lemma collect_effects:
  "\<exists>extra. collect w a srcs acc st = (acc @ kept w srcs, st\<lparr>console := console st @ extra\<rparr>)
     \<and> (\<forall>s \<in> set srcs. set (process_log w s) \<subseteq> set extra)"
proof (induction srcs arbitrary: acc st)
  case Nil
  have "collect w a [] acc st = (acc @ kept w [], st\<lparr>console := console st @ []\<rparr>)"
    by (simp add: kept_def)
  then show ?case by (intro exI [of _ "[]"]) simp
next
  case (Cons s ss)
  let ?st1 = "st\<lparr>console := console st @ process_log w s\<rparr>"
  have step: "process_input w s st = (extracted w s, ?st1)"
    by (rule process_input_decomp)
  show ?case
  proof (cases "yields_content w s")
    case False
    then have skip: "collect w a (s # ss) acc st = collect w a ss acc ?st1"
      by (auto simp: step yields_content_def split: option.splits)
    from Cons.IH [of acc ?st1] obtain extra where
      e: "collect w a ss acc ?st1 = (acc @ kept w ss, ?st1\<lparr>console := console ?st1 @ extra\<rparr>)"
      and l: "\<forall>x \<in> set ss. set (process_log w x) \<subseteq> set extra" by blast
    have "collect w a (s # ss) acc st
        = (acc @ kept w (s # ss), st\<lparr>console := console st @ (process_log w s @ extra)\<rparr>)"
      unfolding skip e using False by (simp add: kept_Cons)
    moreover have "\<forall>x \<in> set (s # ss). set (process_log w x) \<subseteq> set (process_log w s @ extra)"
      using l by auto
    ultimately show ?thesis by blast
  next
    case True
    then obtain t where t: "extracted w s = Some t" "t \<noteq> []"
      by (auto simp: yields_content_def split: option.splits)
    let ?v = "if verbose a
              then [''Extracted '' @ str_nat (length t) @ '' characters from '' @ s] else []"
    let ?st2 = "st\<lparr>console := console st @ (process_log w s @ ?v)\<rparr>"
    have keep: "collect w a (s # ss) acc st = collect w a ss (acc @ [t]) ?st2"
      using t by (simp add: step say_def)
    from Cons.IH [of "acc @ [t]" ?st2] obtain extra where
      e: "collect w a ss (acc @ [t]) ?st2
            = ((acc @ [t]) @ kept w ss, ?st2\<lparr>console := console ?st2 @ extra\<rparr>)"
      and l: "\<forall>x \<in> set ss. set (process_log w x) \<subseteq> set extra" by blast
    have "collect w a (s # ss) acc st
        = (acc @ kept w (s # ss),
           st\<lparr>console := console st @ ((process_log w s @ ?v) @ extra)\<rparr>)"
      unfolding keep e using True t by (simp add: kept_Cons)
    moreover have
      "\<forall>x \<in> set (s # ss). set (process_log w x) \<subseteq> set ((process_log w s @ ?v) @ extra)"
      using l by auto
    ultimately show ?thesis by blast
  qed
qed

lemma collect_fst: "fst (collect w a srcs acc st) = acc @ kept w srcs"
  using collect_effects [of w a srcs acc st] by auto

lemma collect_calls: "llm_calls (snd (collect w a srcs acc st)) = llm_calls st"
  using collect_effects [of w a srcs acc st] by auto

lemma collect_files: "files (snd (collect w a srcs acc st)) = files st"
  using collect_effects [of w a srcs acc st] by auto

lemma collect_console:
  "s \<in> set srcs \<Longrightarrow> line \<in> set (process_log w s) \<Longrightarrow>
   line \<in> set (console (snd (collect w a srcs acc st)))"
proof -
  assume s: "s \<in> set srcs" and l: "line \<in> set (process_log w s)"
  obtain extra where
    e: "collect w a srcs acc st = (acc @ kept w srcs, st\<lparr>console := console st @ extra\<rparr>)"
    and sub: "\<forall>s \<in> set srcs. set (process_log w s) \<subseteq> set extra"
    using collect_effects [of w a srcs acc st] by blast
  from sub s l have "line \<in> set extra" by blast
  then show ?thesis by (simp add: e)
qed

section \<open>The completion client\<close>

lemma process_with_llm_answered:
  "completion w (length (llm_calls st)) (make_prompt c q) = Inr r \<Longrightarrow>
   process_with_llm w c q st = (Inr r, st\<lparr>llm_calls := llm_calls st @ [make_prompt c q]\<rparr>)"
  by (simp add: process_with_llm_def)

lemma process_with_llm_raised:
  "completion w (length (llm_calls st)) (make_prompt c q) = Inl e \<Longrightarrow>
   process_with_llm w c q st
     = (Inl (SystemExit 1),
        st\<lparr>llm_calls := llm_calls st @ [make_prompt c q],
           console := console st @ [''Error calling OpenAI API: '' @ e]\<rparr>)"
  by (simp add: process_with_llm_def say_def)


lemma process_with_llm_files: "files (snd (process_with_llm w c q st)) = files st"
  by (cases "completion w (length (llm_calls st)) (make_prompt c q)")
     (simp_all add: process_with_llm_answered process_with_llm_raised)

lemma process_with_llm_agree:
  assumes "llm_calls st = llm_calls st'" and "files st = files st'"
  shows "agree (process_with_llm w c q st) (process_with_llm w c q st')"
proof (cases "completion w (length (llm_calls st)) (make_prompt c q)")
  case (Inl e)
  moreover from Inl assms have "completion w (length (llm_calls st')) (make_prompt c q) = Inl e"
    by simp
  ultimately show ?thesis using assms
    by (simp add: process_with_llm_raised agree_def)
next
  case (Inr r)
  moreover from Inr assms have "completion w (length (llm_calls st')) (make_prompt c q) = Inr r"
    by simp
  ultimately show ?thesis using assms
    by (simp add: process_with_llm_answered agree_def)
qed

lemma say_calls [simp]: "llm_calls (say m st) = llm_calls st"
  by (simp add: say_def)

lemma say_files [simp]: "files (say m st) = files st"
  by (simp add: say_def)

lemma say_console [simp]: "console (say m st) = console st @ [m]"
  by (simp add: say_def)

section \<open>Runs that differ in what they print\<close>

lemma process_chunks_agree:
  assumes "query a = query b"
  shows "llm_calls st = llm_calls st' \<Longrightarrow> files st = files st' \<Longrightarrow>
         agree (process_chunks w a n i cs rs st) (process_chunks w b m j cs rs st')"
proof (induction cs arbitrary: i j rs st st')
  case Nil
  then show ?case by (simp add: agree_def)
next
  case (Cons c cs)
  let ?s = "if verbose a
            then say (''Processing chunk '' @ str_nat (i + 1) @ ''/'' @ str_nat n) st else st"
  let ?s' = "if verbose b
            then say (''Processing chunk '' @ str_nat (j + 1) @ ''/'' @ str_nat m) st' else st'"
  have pre: "llm_calls ?s = llm_calls ?s'" "files ?s = files ?s'"
    using Cons.prems by simp_all
  have ag: "agree (process_with_llm w c (query a) ?s) (process_with_llm w c (query a) ?s')"
    by (rule process_with_llm_agree [OF pre])
  obtain r1 s1 where x: "process_with_llm w c (query a) ?s = (r1, s1)"
    by (cases "process_with_llm w c (query a) ?s")
  obtain r2 s2 where y: "process_with_llm w c (query a) ?s' = (r2, s2)"
    by (cases "process_with_llm w c (query a) ?s'")
  from ag x y have same: "r2 = r1" "llm_calls s1 = llm_calls s2" "files s1 = files s2"
    by (simp_all add: agree_def)
  have sa: "process_chunks w a n i (c # cs) rs st =
      (case r1 of Inl f \<Rightarrow> (Inl f, s1)
       | Inr r \<Rightarrow> process_chunks w a n (i + 1) cs (rs @ [r]) s1)"
    using x by simp
  have sb: "process_chunks w b m j (c # cs) rs st' =
      (case r1 of Inl f \<Rightarrow> (Inl f, s2)
       | Inr r \<Rightarrow> process_chunks w b m (j + 1) cs (rs @ [r]) s2)"
    using y same(1) assms by simp
  show ?case
  proof (cases r1)
    case (Inl f)
    with same show ?thesis unfolding sa sb by (simp add: agree_def)
  next
    case (Inr r)
    have "agree (process_chunks w a n (i + 1) cs (rs @ [r]) s1)
                (process_chunks w b m (j + 1) cs (rs @ [r]) s2)"
      by (rule Cons.IH [OF same(2) same(3)])
    with Inr show ?thesis unfolding sa sb by simp
  qed
qed

lemma summarise_agree:
  assumes q: "query a = query b" and c: "llm_calls st = llm_calls st'" and f: "files st = files st'"
  shows "agree (summarise w a body st) (summarise w b body st')"
proof (cases "length body > 4000")
  case False
  then show ?thesis
    using process_with_llm_agree [OF c f, of w body "query a"] q by (simp add: summarise_def)
next
  case True
  let ?chunks = "split_text_into_chunks w body 2000 200"
  let ?s1 = "if verbose a
             then say (''Content size ('' @ str_nat (length body)
                       @ '' chars) exceeds processing limit. Chunking content...'') st else st"
  let ?s2 = "if verbose a
             then say (''Split content into '' @ str_nat (length ?chunks) @ '' chunks'') ?s1
             else ?s1"
  let ?t1 = "if verbose b
             then say (''Content size ('' @ str_nat (length body)
                       @ '' chars) exceeds processing limit. Chunking content...'') st' else st'"
  let ?t2 = "if verbose b
             then say (''Split content into '' @ str_nat (length ?chunks) @ '' chunks'') ?t1
             else ?t1"
  let ?X = "process_chunks w a (length ?chunks) 0 ?chunks [] ?s2"
  let ?Y = "process_chunks w b (length ?chunks) 0 ?chunks [] ?t2"
  have pre: "llm_calls ?s2 = llm_calls ?t2" "files ?s2 = files ?t2"
    using c f by simp_all
  have ag: "agree ?X ?Y" by (rule process_chunks_agree [OF q pre])
  obtain r1 s1 where x: "?X = (r1, s1)" by (cases ?X)
  obtain r2 s2 where y: "?Y = (r2, s2)" by (cases ?Y)
  from ag x y have same: "r2 = r1" "llm_calls s1 = llm_calls s2" "files s1 = files s2"
    by (simp_all add: agree_def)
  have sa: "summarise w a body st =
     (case r1 of Inl f \<Rightarrow> (Inl f, s1)
      | Inr results \<Rightarrow>
          if length results > 1 then
            process_with_llm w (join (NL @ NL) results) (Some reduce_directive)
              (if verbose a then say ''Combining results from multiple chunks...'' s1 else s1)
          else (case results of [] \<Rightarrow> (Inl IndexError, s1) | result # _ \<Rightarrow> (Inr result, s1)))"
    using True x by (simp add: summarise_def Let_def)
  have sb: "summarise w b body st' =
     (case r1 of Inl f \<Rightarrow> (Inl f, s2)
      | Inr results \<Rightarrow>
          if length results > 1 then
            process_with_llm w (join (NL @ NL) results) (Some reduce_directive)
              (if verbose b then say ''Combining results from multiple chunks...'' s2 else s2)
          else (case results of [] \<Rightarrow> (Inl IndexError, s2) | result # _ \<Rightarrow> (Inr result, s2)))"
    using True y same(1) by (simp add: summarise_def Let_def)
  show ?thesis
  proof (cases r1)
    case (Inl f)
    with same show ?thesis unfolding sa sb by (simp add: agree_def)
  next
    case (Inr results)
    show ?thesis
    proof (cases "length results > 1")
      case True
      let ?u = "if verbose a then say ''Combining results from multiple chunks...'' s1 else s1"
      let ?v = "if verbose b then say ''Combining results from multiple chunks...'' s2 else s2"
      have "llm_calls ?u = llm_calls ?v" "files ?u = files ?v" using same by simp_all
      then have "agree (process_with_llm w (join (NL @ NL) results) (Some reduce_directive) ?u)
                       (process_with_llm w (join (NL @ NL) results) (Some reduce_directive) ?v)"
        by (rule process_with_llm_agree)
      with Inr True same show ?thesis unfolding sa sb by simp
    next
      case False
      with Inr same show ?thesis unfolding sa sb
        by (cases results) (simp_all add: agree_def)
    qed
  qed
qed

lemma collect_agree:
  "collect w a srcs acc st = (docs, s1) \<Longrightarrow> collect w b srcs acc st = (docs', s2) \<Longrightarrow>
   docs = docs' \<and> llm_calls s1 = llm_calls s2 \<and> files s1 = files s2"
  using collect_fst [of w a srcs acc st] collect_fst [of w b srcs acc st]
        collect_calls [of w a srcs acc st] collect_calls [of w b srcs acc st]
        collect_files [of w a srcs acc st] collect_files [of w b srcs acc st]
  by simp

lemma emit_calls: "llm_calls (emit w a final st) = llm_calls st"
  by (simp add: emit_def print_framed_def split: option.splits)

lemma emit_files:
  "files (emit w a final st) =
     (case output_path a of
        None \<Rightarrow> files st
      | Some path \<Rightarrow> if path \<noteq> [] \<and> write_file w path final = None
                     then files st @ [(path, final)] else files st)"
  by (simp add: emit_def print_framed_def split: option.splits)

lemma main_agree:
  assumes i: "inputs a = inputs b" and q: "query a = query b" and o: "output_path a = output_path b"
  shows "agree (main w a) (main w b)"
proof -
  obtain docs s1 where x: "collect w a (inputs a) [] init_state = (docs, s1)"
    by (cases "collect w a (inputs a) [] init_state")
  obtain docs' s2 where y: "collect w b (inputs a) [] init_state = (docs', s2)"
    by (cases "collect w b (inputs a) [] init_state")
  from collect_agree [OF x y]
  have same: "docs' = docs" "llm_calls s1 = llm_calls s2" "files s1 = files s2" by simp_all
  show ?thesis
  proof (cases "docs = []")
    case True
    with x y same i show ?thesis by (simp add: main_def agree_def)
  next
    case False
    have ag: "agree (summarise w a (combine docs) s1) (summarise w b (combine docs) s2)"
      by (rule summarise_agree [OF q same(2) same(3)])
    obtain r1 t1 where u: "summarise w a (combine docs) s1 = (r1, t1)"
      by (cases "summarise w a (combine docs) s1")
    obtain r2 t2 where v: "summarise w b (combine docs) s2 = (r2, t2)"
      by (cases "summarise w b (combine docs) s2")
    from ag u v have eq: "r2 = r1" "llm_calls t1 = llm_calls t2" "files t1 = files t2"
      by (simp_all add: agree_def)
    have ma: "main w a = (case r1 of Inl f \<Rightarrow> (Inl f, t1)
                          | Inr final \<Rightarrow> (Inr final, emit w a final t1))"
      using False x u by (simp add: main_def)
    have mb: "main w b = (case r1 of Inl f \<Rightarrow> (Inl f, t2)
                          | Inr final \<Rightarrow> (Inr final, emit w b final t2))"
      using False y v same(1) eq(1) i by (simp add: main_def)
    show ?thesis
      unfolding ma mb using eq o
      by (cases r1) (simp_all add: agree_def emit_calls emit_files split: option.splits)
  qed
qed

section \<open>Claims about the orchestrator\<close>

text \<open>
  Claim C1. The combined corpus is the documents in input order with the separator banner
  between every adjacent pair. The code does something else: the banner is written once,
  in front of the first document, and the documents are joined by a blank line only
  (the \<^verbatim>\<open>join\<close> call binds tighter than the additions around it). The theorem
  evaluates the code on two documents and on one.
\<close>

theorem combine_writes_banner_once:
  "combine [''first'', ''second''] = banner @ ''first'' @ NL @ NL @ ''second''
   \<and> combine [''first'', ''second''] \<noteq> ''first'' @ banner @ ''second''
   \<and> combine [''first'', ''second''] \<noteq> ''first'' @ banner @ NL @ NL @ ''second''
   \<and> combine [''only''] = banner @ ''only''"
  by (simp add: combine_def banner_def)

section \<open>Claims about the source router\<close>

text \<open>
  Claim C5. An input that starts with \<^verbatim>\<open>http://\<close> or \<^verbatim>\<open>https://\<close> goes to the URL
  extractor. Any other input is a path: if it does not exist the router prints the
  not-found line and returns nothing; otherwise the lower-cased extension decides:
  \<^verbatim>\<open>.pdf\<close> the PDF extractor, \<^verbatim>\<open>.docx\<close> the DOCX extractor, \<^verbatim>\<open>.csv\<close> the CSV
  extractor, \<^verbatim>\<open>.txt .md .json .html .htm\<close> the plain-text extractor, and every other
  extension the plain-text extractor after a warning line.
\<close>

theorem process_input_dispatch:
  "((startswith s ''http://'' \<or> startswith s ''https://'') \<longrightarrow>
      process_input w s st = extract_text_from_url w s (say (''Processing URL: '' @ s) st))
   \<and> (\<not> (startswith s ''http://'' \<or> startswith s ''https://'') \<and> \<not> path_exists w s \<longrightarrow>
      process_input w s st = (None, say (''Error: File not found: '' @ s) st))
   \<and> (\<not> (startswith s ''http://'' \<or> startswith s ''https://'') \<and> path_exists w s \<longrightarrow>
      (lower (snd (splitext w s)) = ''.pdf'' \<longrightarrow>
         process_input w s st = extract_text_from_pdf w s (say (''Processing file: '' @ s) st))
      \<and> (lower (snd (splitext w s)) = ''.docx'' \<longrightarrow>
         process_input w s st = extract_text_from_docx w s (say (''Processing file: '' @ s) st))
      \<and> (lower (snd (splitext w s)) = ''.csv'' \<longrightarrow>
         process_input w s st = extract_text_from_csv w s (say (''Processing file: '' @ s) st))
      \<and> (lower (snd (splitext w s)) \<in> set [''.txt'', ''.md'', ''.json'', ''.html'', ''.htm''] \<longrightarrow>
         process_input w s st
           = extract_text_from_text_file w s (say (''Processing file: '' @ s) st))
      \<and> (lower (snd (splitext w s))
            \<notin> set [''.pdf'', ''.docx'', ''.csv'', ''.txt'', ''.md'', ''.json'', ''.html'', ''.htm'']
          \<longrightarrow>
         process_input w s st
           = extract_text_from_text_file w s
               (say (''Warning: Unrecognized file extension for '' @ s @ ''. Trying as text file.'')
                  (say (''Processing file: '' @ s) st))))"
proof -
  have u: "is_url s = (startswith s ''http://'' \<or> startswith s ''https://'')"
    by (simp add: is_url_def)
  show ?thesis
    unfolding u [symmetric]
    using process_input_url [of s w st] process_input_missing [of s w st]
      process_input_pdf [of s w st] process_input_docx [of s w st] process_input_csv [of s w st]
      process_input_text [of s w st] process_input_other [of s w st]
    by blast
qed

theorem process_input_dispatch_witness:
  "process_input (demo_world answering writable) ''https://example.com/a.pdf'' init_state
     = extract_text_from_url (demo_world answering writable) ''https://example.com/a.pdf''
         (say ''Processing URL: https://example.com/a.pdf'' init_state)
   \<and> process_input (demo_world answering writable) ''missing.txt'' init_state
     = (None, say ''Error: File not found: missing.txt'' init_state)
   \<and> process_input (demo_world answering writable) ''Report.PDF'' init_state
     = extract_text_from_pdf (demo_world answering writable) ''Report.PDF''
         (say ''Processing file: Report.PDF'' init_state)
   \<and> process_input (demo_world answering writable) ''Thesis.Docx'' init_state
     = extract_text_from_docx (demo_world answering writable) ''Thesis.Docx''
         (say ''Processing file: Thesis.Docx'' init_state)
   \<and> process_input (demo_world answering writable) ''data.CSV'' init_state
     = extract_text_from_csv (demo_world answering writable) ''data.CSV''
         (say ''Processing file: data.CSV'' init_state)
   \<and> process_input (demo_world answering writable) ''page.HTM'' init_state
     = extract_text_from_text_file (demo_world answering writable) ''page.HTM''
         (say ''Processing file: page.HTM'' init_state)
   \<and> process_input (demo_world answering writable) ''archive.bin'' init_state
     = extract_text_from_text_file (demo_world answering writable) ''archive.bin''
         (say ''Warning: Unrecognized file extension for archive.bin. Trying as text file.''
            (say ''Processing file: archive.bin'' init_state))"
proof -
  let ?w = "demo_world answering writable"
  have url: "startswith ''https://example.com/a.pdf'' ''http://''
             \<or> startswith ''https://example.com/a.pdf'' ''https://''"
    by code_simp
  have missing: "\<not> (startswith ''missing.txt'' ''http://'' \<or> startswith ''missing.txt'' ''https://'')
                 \<and> \<not> path_exists ?w ''missing.txt''"
    by code_simp
  have pdf: "\<not> (startswith ''Report.PDF'' ''http://'' \<or> startswith ''Report.PDF'' ''https://'')
             \<and> path_exists ?w ''Report.PDF''"
    "lower (snd (splitext ?w ''Report.PDF'')) = ''.pdf''"
    by code_simp+
  have docx: "\<not> (startswith ''Thesis.Docx'' ''http://'' \<or> startswith ''Thesis.Docx'' ''https://'')
             \<and> path_exists ?w ''Thesis.Docx''"
    "lower (snd (splitext ?w ''Thesis.Docx'')) = ''.docx''"
    by code_simp+
  have csv: "\<not> (startswith ''data.CSV'' ''http://'' \<or> startswith ''data.CSV'' ''https://'')
             \<and> path_exists ?w ''data.CSV''"
    "lower (snd (splitext ?w ''data.CSV'')) = ''.csv''"
    by code_simp+
  have htm: "\<not> (startswith ''page.HTM'' ''http://'' \<or> startswith ''page.HTM'' ''https://'')
             \<and> path_exists ?w ''page.HTM''"
    "lower (snd (splitext ?w ''page.HTM'')) \<in> set [''.txt'', ''.md'', ''.json'', ''.html'', ''.htm'']"
    by code_simp+
  have bin: "\<not> (startswith ''archive.bin'' ''http://'' \<or> startswith ''archive.bin'' ''https://'')
             \<and> path_exists ?w ''archive.bin''"
    "lower (snd (splitext ?w ''archive.bin''))
       \<notin> set [''.pdf'', ''.docx'', ''.csv'', ''.txt'', ''.md'', ''.json'', ''.html'', ''.htm'']"
    by code_simp+
  from process_input_dispatch [of "''https://example.com/a.pdf''" ?w init_state] url
  have 1: "process_input ?w ''https://example.com/a.pdf'' init_state
     = extract_text_from_url ?w ''https://example.com/a.pdf''
         (say (''Processing URL: '' @ ''https://example.com/a.pdf'') init_state)"
    by blast
  from process_input_dispatch [of "''missing.txt''" ?w init_state] missing
  have 2: "process_input ?w ''missing.txt'' init_state
     = (None, say (''Error: File not found: '' @ ''missing.txt'') init_state)"
    by blast
  from process_input_dispatch [of "''Report.PDF''" ?w init_state] pdf
  have 3: "process_input ?w ''Report.PDF'' init_state
     = extract_text_from_pdf ?w ''Report.PDF'' (say (''Processing file: '' @ ''Report.PDF'') init_state)"
    by blast
  from process_input_dispatch [of "''Thesis.Docx''" ?w init_state] docx
  have 4: "process_input ?w ''Thesis.Docx'' init_state
     = extract_text_from_docx ?w ''Thesis.Docx'' (say (''Processing file: '' @ ''Thesis.Docx'') init_state)"
    by blast
  from process_input_dispatch [of "''data.CSV''" ?w init_state] csv
  have 5: "process_input ?w ''data.CSV'' init_state
     = extract_text_from_csv ?w ''data.CSV'' (say (''Processing file: '' @ ''data.CSV'') init_state)"
    by blast
  from process_input_dispatch [of "''page.HTM''" ?w init_state] htm
  have 6: "process_input ?w ''page.HTM'' init_state
     = extract_text_from_text_file ?w ''page.HTM'' (say (''Processing file: '' @ ''page.HTM'') init_state)"
    by blast
  from process_input_dispatch [of "''archive.bin''" ?w init_state] bin
  have 7: "process_input ?w ''archive.bin'' init_state
     = extract_text_from_text_file ?w ''archive.bin''
         (say (''Warning: Unrecognized file extension for '' @ ''archive.bin'' @ ''. Trying as text file.'')
            (say (''Processing file: '' @ ''archive.bin'') init_state))"
    by blast
  show ?thesis
    unfolding 1 2 3 4 5 6 7 by simp
qed

section \<open>Backend failures\<close>

lemma all_answered_Nil: "all_answered w []"
  by (simp add: all_answered_def)

lemma all_answered_snoc:
  "all_answered w (cs @ [p]) \<longleftrightarrow> all_answered w cs \<and> (\<exists>r. completion w (length cs) p = Inr r)"
proof
  assume h: "all_answered w (cs @ [p])"
  have "all_answered w cs"
    unfolding all_answered_def
  proof (intro allI impI)
    fix i assume "i < length cs"
    with h have "\<exists>r. completion w i ((cs @ [p]) ! i) = Inr r"
      by (simp add: all_answered_def)
    with \<open>i < length cs\<close> show "\<exists>r. completion w i (cs ! i) = Inr r"
      by (simp add: nth_append)
  qed
  moreover have "\<exists>r. completion w (length cs) ((cs @ [p]) ! length cs) = Inr r"
  proof -
    have "length cs < length (cs @ [p])" by simp
    with h show ?thesis unfolding all_answered_def by blast
  qed
  ultimately show "all_answered w cs \<and> (\<exists>r. completion w (length cs) p = Inr r)"
    by simp
next
  assume h: "all_answered w cs \<and> (\<exists>r. completion w (length cs) p = Inr r)"
  show "all_answered w (cs @ [p])"
    unfolding all_answered_def
  proof (intro allI impI)
    fix i assume "i < length (cs @ [p])"
    then consider "i < length cs" | "i = length cs" by fastforce
    then show "\<exists>r. completion w i ((cs @ [p]) ! i) = Inr r"
    proof cases
      case 1
      with h show ?thesis by (simp add: all_answered_def nth_append)
    next
      case 2
      with h show ?thesis by simp
    qed
  qed
qed

lemma process_with_llm_exit_explained:
  assumes "all_answered w (llm_calls st)"
  shows "exit_explained w (process_with_llm w c q st)"
proof (cases "completion w (length (llm_calls st)) (make_prompt c q)")
  case (Inr r)
  with assms show ?thesis
    by (simp add: process_with_llm_answered exit_explained_def all_answered_snoc)
next
  case (Inl e)
  have "backend_failed w (process_with_llm w c q st)"
    unfolding backend_failed_def process_with_llm_raised [OF Inl]
    using assms Inl
    by (intro exI [of _ "llm_calls st"] exI [of _ "make_prompt c q"] exI [of _ e]) simp
  then show ?thesis by (simp add: exit_explained_def)
qed

lemma process_with_llm_Inr:
  "process_with_llm w c q st = (Inr r, st') \<Longrightarrow>
   completion w (length (llm_calls st)) (make_prompt c q) = Inr r
   \<and> st' = st\<lparr>llm_calls := llm_calls st @ [make_prompt c q]\<rparr>"
  by (cases "completion w (length (llm_calls st)) (make_prompt c q)")
     (auto simp: process_with_llm_answered process_with_llm_raised)

lemma exit_explained_Inl_cong:
  "exit_explained w ((Inl f :: failure + 'a), st) \<Longrightarrow> exit_explained w ((Inl f :: failure + 'b), st)"
  by (simp add: exit_explained_def backend_failed_def)

lemma exit_explained_Inr: "exit_explained w (Inr r, st) \<longleftrightarrow> all_answered w (llm_calls st)"
  by (simp add: exit_explained_def backend_failed_def)

lemma process_chunks_exit_explained:
  "all_answered w (llm_calls st) \<Longrightarrow> exit_explained w (process_chunks w a n i cs rs st)"
proof (induction cs arbitrary: i rs st)
  case Nil
  then show ?case by (simp add: exit_explained_def)
next
  case (Cons c cs)
  let ?s = "if verbose a
            then say (''Processing chunk '' @ str_nat (i + 1) @ ''/'' @ str_nat n) st else st"
  have pre: "all_answered w (llm_calls ?s)" using Cons.prems by simp
  obtain r1 s1 where x: "process_with_llm w c (query a) ?s = (r1, s1)"
    by (cases "process_with_llm w c (query a) ?s")
  have sx: "exit_explained w (r1, s1)"
    using process_with_llm_exit_explained [OF pre, of c "query a"] x by simp
  have step: "process_chunks w a n i (c # cs) rs st =
      (case r1 of Inl f \<Rightarrow> (Inl f, s1)
       | Inr r \<Rightarrow> process_chunks w a n (i + 1) cs (rs @ [r]) s1)"
    using x by simp
  show ?case
  proof (cases r1)
    case (Inl f)
    with sx show ?thesis unfolding step by (simp add: exit_explained_Inl_cong)
  next
    case (Inr r)
    with sx have "all_answered w (llm_calls s1)" by (simp add: exit_explained_Inr)
    then have "exit_explained w (process_chunks w a n (i + 1) cs (rs @ [r]) s1)" by (rule Cons.IH)
    with Inr show ?thesis unfolding step by simp
  qed
qed

lemma process_chunks_files: "files (snd (process_chunks w a n i cs rs st)) = files st"
proof (induction cs arbitrary: i rs st)
  case Nil
  show ?case by simp
next
  case (Cons c cs)
  let ?s = "if verbose a
            then say (''Processing chunk '' @ str_nat (i + 1) @ ''/'' @ str_nat n) st else st"
  obtain r1 s1 where x: "process_with_llm w c (query a) ?s = (r1, s1)"
    by (cases "process_with_llm w c (query a) ?s")
  have f: "files s1 = files st"
    using process_with_llm_files [of w c "query a" ?s] x by simp
  have step: "process_chunks w a n i (c # cs) rs st =
      (case r1 of Inl f \<Rightarrow> (Inl f, s1)
       | Inr r \<Rightarrow> process_chunks w a n (i + 1) cs (rs @ [r]) s1)"
    using x by simp
  show ?case unfolding step using f Cons.IH by (cases r1) simp_all
qed

text \<open>The chunking branch of the size decision, once the chunk loop has run.\<close>

lemma summarise_chunked:
  assumes "length body > 4000"
    and "process_chunks w a (length (split_text_into_chunks w body 2000 200)) 0
           (split_text_into_chunks w body 2000 200) []
           (if verbose a
            then say (''Split content into ''
                      @ str_nat (length (split_text_into_chunks w body 2000 200)) @ '' chunks'')
                   (say (''Content size ('' @ str_nat (length body)
                         @ '' chars) exceeds processing limit. Chunking content...'') st)
            else st) = (r1, s1)"
  shows "summarise w a body st =
     (case r1 of Inl f \<Rightarrow> (Inl f, s1)
      | Inr results \<Rightarrow>
          if length results > 1 then
            process_with_llm w (join (NL @ NL) results) (Some reduce_directive)
              (if verbose a then say ''Combining results from multiple chunks...'' s1 else s1)
          else (case results of [] \<Rightarrow> (Inl IndexError, s1) | result # _ \<Rightarrow> (Inr result, s1)))"
proof (cases "verbose a")
  case True
  with assms show ?thesis by (simp add: summarise_def Let_def)
next
  case False
  with assms show ?thesis by (simp add: summarise_def Let_def)
qed

lemma summarise_direct:
  "\<not> length body > 4000 \<Longrightarrow> summarise w a body st = process_with_llm w body (query a) st"
  by (simp add: summarise_def)

lemma summarise_exit_explained:
  assumes ok: "all_answered w (llm_calls st)"
  shows "exit_explained w (summarise w a body st)"
proof (cases "length body > 4000")
  case False
  then show ?thesis using process_with_llm_exit_explained [OF ok] by (simp add: summarise_direct)
next
  case True
  let ?chunks = "split_text_into_chunks w body 2000 200"
  let ?s2 = "if verbose a
            then say (''Split content into '' @ str_nat (length ?chunks) @ '' chunks'')
                   (say (''Content size ('' @ str_nat (length body)
                         @ '' chars) exceeds processing limit. Chunking content...'') st)
            else st"
  obtain r1 s1 where x: "process_chunks w a (length ?chunks) 0 ?chunks [] ?s2 = (r1, s1)"
    by (cases "process_chunks w a (length ?chunks) 0 ?chunks [] ?s2")
  have "all_answered w (llm_calls ?s2)" using ok by simp
  then have "exit_explained w (process_chunks w a (length ?chunks) 0 ?chunks [] ?s2)"
    by (rule process_chunks_exit_explained)
  then have sx: "exit_explained w (r1, s1)" using x by simp
  note eq = summarise_chunked [OF True x]
  show ?thesis
  proof (cases r1)
    case (Inl f)
    with sx show ?thesis unfolding eq by (simp add: exit_explained_Inl_cong)
  next
    case (Inr results)
    with sx have ok1: "all_answered w (llm_calls s1)" by (simp add: exit_explained_Inr)
    show ?thesis
    proof (cases "length results > 1")
      case True
      let ?u = "if verbose a then say ''Combining results from multiple chunks...'' s1 else s1"
      have "all_answered w (llm_calls ?u)" using ok1 by simp
      then have "exit_explained w (process_with_llm w (join (NL @ NL) results) (Some reduce_directive) ?u)"
        by (rule process_with_llm_exit_explained)
      with Inr True show ?thesis unfolding eq by simp
    next
      case False
      with Inr ok1 show ?thesis unfolding eq
        by (cases results) (simp_all add: exit_explained_def)
    qed
  qed
qed

lemma summarise_files: "files (snd (summarise w a body st)) = files st"
proof (cases "length body > 4000")
  case False
  then show ?thesis by (simp add: summarise_direct process_with_llm_files)
next
  case True
  let ?chunks = "split_text_into_chunks w body 2000 200"
  let ?s2 = "if verbose a
            then say (''Split content into '' @ str_nat (length ?chunks) @ '' chunks'')
                   (say (''Content size ('' @ str_nat (length body)
                         @ '' chars) exceeds processing limit. Chunking content...'') st)
            else st"
  obtain r1 s1 where x: "process_chunks w a (length ?chunks) 0 ?chunks [] ?s2 = (r1, s1)"
    by (cases "process_chunks w a (length ?chunks) 0 ?chunks [] ?s2")
  have f: "files s1 = files st"
    using process_chunks_files [of w a "length ?chunks" 0 ?chunks "[]" ?s2] x by simp
  note eq = summarise_chunked [OF True x]
  show ?thesis
  proof (cases r1)
    case (Inl e)
    with f show ?thesis unfolding eq by simp
  next
    case (Inr results)
    show ?thesis
    proof (cases "length results > 1")
      case True
      with Inr f show ?thesis unfolding eq by (simp add: process_with_llm_files)
    next
      case False
      with Inr f show ?thesis unfolding eq by (cases results) simp_all
    qed
  qed
qed

text \<open>The run after the inputs have been collected.\<close>

lemma collect_init:
  "\<exists>st0. collect w a (inputs a) [] init_state = (kept w (inputs a), st0)
     \<and> llm_calls st0 = [] \<and> files st0 = []"
proof -
  obtain docs st0 where c: "collect w a (inputs a) [] init_state = (docs, st0)"
    by (cases "collect w a (inputs a) [] init_state")
  have "docs = kept w (inputs a)" using collect_fst [of w a "inputs a" "[]" init_state] c by simp
  moreover have "llm_calls st0 = []"
    using collect_calls [of w a "inputs a" "[]" init_state] c by (simp add: init_state_def)
  moreover have "files st0 = []"
    using collect_files [of w a "inputs a" "[]" init_state] c by (simp add: init_state_def)
  ultimately show ?thesis using c by simp
qed

lemma main_no_content:
  "collect w a (inputs a) [] init_state = (docs, st0) \<Longrightarrow> docs = [] \<Longrightarrow>
   main w a = (Inl (SystemExit 1), say no_content_message st0)"
  by (simp add: main_def)

lemma main_content:
  "collect w a (inputs a) [] init_state = (docs, st0) \<Longrightarrow> docs \<noteq> [] \<Longrightarrow>
   main w a = (case summarise w a (combine docs) st0 of
                 (Inl f, st2) \<Rightarrow> (Inl f, st2)
               | (Inr final_result, st2) \<Rightarrow> (Inr final_result, emit w a final_result st2))"
  by (simp add: main_def)

lemma main_exit_explained:
  assumes "kept w (inputs a) \<noteq> []"
  shows "exit_explained w (main w a)
         \<and> (backend_failed w (main w a) \<longrightarrow> files (snd (main w a)) = [])"
proof -
  obtain st0 where c: "collect w a (inputs a) [] init_state = (kept w (inputs a), st0)"
    and c0: "llm_calls st0 = []" and f0: "files st0 = []"
    using collect_init [of w a] by blast
  let ?X = "summarise w a (combine (kept w (inputs a))) st0"
  obtain r1 s1 where x: "?X = (r1, s1)" by (cases ?X)
  have "all_answered w (llm_calls st0)" using c0 by (simp add: all_answered_Nil)
  then have "exit_explained w ?X" by (rule summarise_exit_explained)
  then have sx: "exit_explained w (r1, s1)" using x by simp
  have fx: "files s1 = []" using summarise_files [of w a "combine (kept w (inputs a))" st0] x f0 by simp
  have m: "main w a = (case r1 of Inl f \<Rightarrow> (Inl f, s1)
                       | Inr final \<Rightarrow> (Inr final, emit w a final s1))"
    using main_content [OF c assms] x by simp
  show ?thesis
  proof (cases r1)
    case (Inl f)
    with sx fx show ?thesis unfolding m by (simp add: exit_explained_Inl_cong)
  next
    case (Inr final)
    with sx have "all_answered w (llm_calls s1)" by (simp add: exit_explained_Inr)
    with Inr show ?thesis unfolding m
      by (simp add: exit_explained_def backend_failed_def emit_calls)
  qed
qed

lemma main_backend:
  "all_answered w (llm_calls (snd (main w a)))
   \<or> (backend_failed w (main w a) \<and> files (snd (main w a)) = [])"
proof (cases "kept w (inputs a) = []")
  case True
  obtain st0 where c: "collect w a (inputs a) [] init_state = (kept w (inputs a), st0)"
    and c0: "llm_calls st0 = []"
    using collect_init [of w a] by blast
  have "main w a = (Inl (SystemExit 1), say no_content_message st0)"
    by (rule main_no_content [OF c True])
  with c0 show ?thesis by (simp add: all_answered_Nil)
next
  case False
  from main_exit_explained [OF False] show ?thesis
    by (auto simp: exit_explained_def)
qed

section \<open>Claims about the completion client\<close>

text \<open>
  Claim C7. When the backend raises on a completion call, the run reports the error and
  exits with status 1 at once: the failed call is the last call made (it is not repeated
  and no call follows it), the error report is the last line printed, and no output file
  is written.
\<close>

theorem backend_error_is_fatal:
  assumes "i < length (llm_calls (snd (main w a)))"
    and "completion w i (llm_calls (snd (main w a)) ! i) = Inl e"
  shows "fst (main w a) = Inl (SystemExit 1)
         \<and> Suc i = length (llm_calls (snd (main w a)))
         \<and> last (console (snd (main w a))) = ''Error calling OpenAI API: '' @ e
         \<and> files (snd (main w a)) = []"
proof -
  have "\<not> all_answered w (llm_calls (snd (main w a)))"
    using assms unfolding all_answered_def by force
  with main_backend [of w a]
  have bf: "backend_failed w (main w a)" and nf: "files (snd (main w a)) = []" by blast+
  from bf obtain cs p e' where
    calls: "llm_calls (snd (main w a)) = cs @ [p]" and ok: "all_answered w cs"
    and raised: "completion w (length cs) p = Inl e'"
    and ex: "fst (main w a) = Inl (SystemExit 1)"
    and lastline: "last (console (snd (main w a))) = ''Error calling OpenAI API: '' @ e'"
    unfolding backend_failed_def by blast
  have "i = length cs"
  proof (rule ccontr)
    assume "i \<noteq> length cs"
    with assms(1) calls have lt: "i < length cs" by simp
    with ok obtain r where "completion w i (cs ! i) = Inr r"
      unfolding all_answered_def by blast
    with lt calls assms(2) show False by (simp add: nth_append)
  qed
  with calls raised assms(2) have "e' = e" by simp
  with ex lastline nf calls \<open>i = length cs\<close> show ?thesis by simp
qed

theorem backend_error_is_fatal_witness:
  "fst (main (demo_world (failing_at 0) writable)
          ((demo_args [''notes.txt''])\<lparr>output_path := Some ''out.txt''\<rparr>))
     = Inl (SystemExit 1)
   \<and> length (llm_calls (snd (main (demo_world (failing_at 0) writable)
          ((demo_args [''notes.txt''])\<lparr>output_path := Some ''out.txt''\<rparr>)))) = 1
   \<and> last (console (snd (main (demo_world (failing_at 0) writable)
          ((demo_args [''notes.txt''])\<lparr>output_path := Some ''out.txt''\<rparr>))))
     = ''Error calling OpenAI API: quota exceeded''
   \<and> files (snd (main (demo_world (failing_at 0) writable)
          ((demo_args [''notes.txt''])\<lparr>output_path := Some ''out.txt''\<rparr>))) = []"
proof -
  let ?w = "demo_world (failing_at 0) writable"
  let ?a = "(demo_args [''notes.txt''])\<lparr>output_path := Some ''out.txt''\<rparr>"
  have h1: "0 < length (llm_calls (snd (main ?w ?a)))"
    by code_simp
  have h2: "completion ?w 0 (llm_calls (snd (main ?w ?a)) ! 0) = Inl ''quota exceeded''"
    by code_simp
  from backend_error_is_fatal [OF h1 h2] show ?thesis by simp
qed

section \<open>What the program prints stays printed\<close>

lemma process_with_llm_console:
  "set (console st) \<subseteq> set (console (snd (process_with_llm w c q st)))"
  by (cases "completion w (length (llm_calls st)) (make_prompt c q)")
     (auto simp: process_with_llm_answered process_with_llm_raised)

lemma process_chunks_console:
  "set (console st) \<subseteq> set (console (snd (process_chunks w a n i cs rs st)))"
proof (induction cs arbitrary: i rs st)
  case Nil
  show ?case by simp
next
  case (Cons c cs)
  let ?s = "if verbose a
            then say (''Processing chunk '' @ str_nat (i + 1) @ ''/'' @ str_nat n) st else st"
  obtain r1 s1 where x: "process_with_llm w c (query a) ?s = (r1, s1)"
    by (cases "process_with_llm w c (query a) ?s")
  have "set (console ?s) \<subseteq> set (console s1)"
    using process_with_llm_console [of ?s w c "query a"] x by simp
  moreover have "set (console st) \<subseteq> set (console ?s)" by auto
  ultimately have f: "set (console st) \<subseteq> set (console s1)" by blast
  have step: "process_chunks w a n i (c # cs) rs st =
      (case r1 of Inl f \<Rightarrow> (Inl f, s1)
       | Inr r \<Rightarrow> process_chunks w a n (i + 1) cs (rs @ [r]) s1)"
    using x by simp
  show ?case
  proof (cases r1)
    case (Inl e)
    with f show ?thesis unfolding step by simp
  next
    case (Inr r)
    with f Cons.IH [of s1 "i + 1" "rs @ [r]"] show ?thesis unfolding step by auto
  qed
qed

lemma summarise_console:
  "set (console st) \<subseteq> set (console (snd (summarise w a body st)))"
proof (cases "length body > 4000")
  case False
  then show ?thesis by (simp add: summarise_direct process_with_llm_console)
next
  case True
  let ?chunks = "split_text_into_chunks w body 2000 200"
  let ?s2 = "if verbose a
            then say (''Split content into '' @ str_nat (length ?chunks) @ '' chunks'')
                   (say (''Content size ('' @ str_nat (length body)
                         @ '' chars) exceeds processing limit. Chunking content...'') st)
            else st"
  obtain r1 s1 where x: "process_chunks w a (length ?chunks) 0 ?chunks [] ?s2 = (r1, s1)"
    by (cases "process_chunks w a (length ?chunks) 0 ?chunks [] ?s2")
  have "set (console ?s2) \<subseteq> set (console s1)"
    using process_chunks_console [of ?s2 w a "length ?chunks" 0 ?chunks "[]"] x by simp
  moreover have "set (console st) \<subseteq> set (console ?s2)" by auto
  ultimately have f: "set (console st) \<subseteq> set (console s1)" by blast
  note eq = summarise_chunked [OF True x]
  show ?thesis
  proof (cases r1)
    case (Inl e)
    with f show ?thesis unfolding eq by simp
  next
    case (Inr results)
    show ?thesis
    proof (cases "length results > 1")
      case True
      let ?u = "if verbose a then say ''Combining results from multiple chunks...'' s1 else s1"
      have "set (console s1) \<subseteq> set (console ?u)" by auto
      with f process_with_llm_console [of ?u w "join (NL @ NL) results" "Some reduce_directive"]
      have "set (console st)
            \<subseteq> set (console (snd (process_with_llm w (join (NL @ NL) results)
                                     (Some reduce_directive) ?u)))"
        by blast
      with Inr True show ?thesis unfolding eq by simp
    next
      case False
      with Inr f show ?thesis unfolding eq by (cases results) simp_all
    qed
  qed
qed

lemma emit_console: "set (console st) \<subseteq> set (console (emit w a final st))"
  by (auto simp: emit_def print_framed_def split: option.splits)

lemma main_console:
  assumes "s \<in> set (inputs a)" and "line \<in> set (process_log w s)"
  shows "line \<in> set (console (snd (main w a)))"
proof -
  obtain docs st0 where c: "collect w a (inputs a) [] init_state = (docs, st0)"
    by (cases "collect w a (inputs a) [] init_state")
  have l0: "line \<in> set (console st0)"
    using collect_console [OF assms, of a "[]" init_state] c by simp
  show ?thesis
  proof (cases "docs = []")
    case True
    with l0 show ?thesis unfolding main_no_content [OF c True] by simp
  next
    case False
    let ?X = "summarise w a (combine docs) st0"
    obtain r1 s1 where x: "?X = (r1, s1)" by (cases ?X)
    have l1: "line \<in> set (console s1)"
      using summarise_console [of st0 w a "combine docs"] x l0 by auto
    have m: "main w a = (case r1 of Inl f \<Rightarrow> (Inl f, s1)
                         | Inr final \<Rightarrow> (Inr final, emit w a final s1))"
      using main_content [OF c False] x by simp
    show ?thesis
    proof (cases r1)
      case (Inl f)
      with l1 show ?thesis unfolding m by simp
    next
      case (Inr final)
      with l1 emit_console [of s1 w a final] show ?thesis unfolding m by auto
    qed
  qed
qed

section \<open>Failed extractions leave a diagnostic\<close>

lemma startswith_append: "startswith (p @ e) p"
  by (simp add: startswith_def)

lemma diagnostic_not_found: "is_diagnostic_for s (''Error: File not found: '' @ s)"
  by (simp add: is_diagnostic_for_def)

lemma diagnostic_extractor:
  assumes "kind \<in> set [''URL'', ''PDF'', ''DOCX'', ''CSV'', ''file'']"
  shows "is_diagnostic_for s ((''Error extracting text from '' @ kind @ '' '' @ s @ '': '') @ e)"
proof -
  have "list_ex (\<lambda>k. startswith ((''Error extracting text from '' @ kind @ '' '' @ s @ '': '') @ e)
                       (''Error extracting text from '' @ k @ '' '' @ s @ '': ''))
          [''URL'', ''PDF'', ''DOCX'', ''CSV'', ''file'']"
    unfolding list_ex_iff using assms startswith_append by blast
  then show ?thesis unfolding is_diagnostic_for_def by blast
qed

lemma url_failure_logged:
  "fst (extract_text_from_url w s st) = None \<Longrightarrow>
   \<exists>line \<in> set (console (snd (extract_text_from_url w s st))). is_diagnostic_for s line"
proof (cases "fetch_url w s")
  case (Inr t)
  assume "fst (extract_text_from_url w s st) = None"
  with Inr show ?thesis by (simp add: extract_text_from_url_def)
next
  case (Inl e)
  have d: "is_diagnostic_for s ((''Error extracting text from '' @ ''URL'' @ '' '' @ s @ '': '') @ e)"
    by (rule diagnostic_extractor) simp
  have "console (snd (extract_text_from_url w s st))
          = console st @ [(''Error extracting text from '' @ ''URL'' @ '' '' @ s @ '': '') @ e]"
    using Inl by (simp add: extract_text_from_url_def)
  with d show ?thesis by simp
qed

lemma pdf_failure_logged:
  "fst (extract_text_from_pdf w s st) = None \<Longrightarrow>
   \<exists>line \<in> set (console (snd (extract_text_from_pdf w s st))). is_diagnostic_for s line"
proof (cases "read_pdf w s")
  case (Inr t)
  assume "fst (extract_text_from_pdf w s st) = None"
  with Inr show ?thesis by (simp add: extract_text_from_pdf_def)
next
  case (Inl e)
  have d: "is_diagnostic_for s ((''Error extracting text from '' @ ''PDF'' @ '' '' @ s @ '': '') @ e)"
    by (rule diagnostic_extractor) simp
  have "console (snd (extract_text_from_pdf w s st))
          = console st @ [(''Error extracting text from '' @ ''PDF'' @ '' '' @ s @ '': '') @ e]"
    using Inl by (simp add: extract_text_from_pdf_def)
  with d show ?thesis by simp
qed

lemma docx_failure_logged:
  "fst (extract_text_from_docx w s st) = None \<Longrightarrow>
   \<exists>line \<in> set (console (snd (extract_text_from_docx w s st))). is_diagnostic_for s line"
proof (cases "read_docx w s")
  case (Inr t)
  assume "fst (extract_text_from_docx w s st) = None"
  with Inr show ?thesis by (simp add: extract_text_from_docx_def)
next
  case (Inl e)
  have d: "is_diagnostic_for s ((''Error extracting text from '' @ ''DOCX'' @ '' '' @ s @ '': '') @ e)"
    by (rule diagnostic_extractor) simp
  have "console (snd (extract_text_from_docx w s st))
          = console st @ [(''Error extracting text from '' @ ''DOCX'' @ '' '' @ s @ '': '') @ e]"
    using Inl by (simp add: extract_text_from_docx_def)
  with d show ?thesis by simp
qed

lemma csv_failure_logged:
  "fst (extract_text_from_csv w s st) = None \<Longrightarrow>
   \<exists>line \<in> set (console (snd (extract_text_from_csv w s st))). is_diagnostic_for s line"
proof (cases "read_csv w s")
  case (Inr t)
  assume "fst (extract_text_from_csv w s st) = None"
  with Inr show ?thesis by (simp add: extract_text_from_csv_def)
next
  case (Inl e)
  have d: "is_diagnostic_for s ((''Error extracting text from '' @ ''CSV'' @ '' '' @ s @ '': '') @ e)"
    by (rule diagnostic_extractor) simp
  have "console (snd (extract_text_from_csv w s st))
          = console st @ [(''Error extracting text from '' @ ''CSV'' @ '' '' @ s @ '': '') @ e]"
    using Inl by (simp add: extract_text_from_csv_def)
  with d show ?thesis by simp
qed

lemma text_file_failure_logged:
  assumes "fst (extract_text_from_text_file w s st) = None"
  shows "\<exists>line \<in> set (console (snd (extract_text_from_text_file w s st))). is_diagnostic_for s line"
proof -
  have d: "\<And>e. is_diagnostic_for s
             ((''Error extracting text from '' @ ''file'' @ '' '' @ s @ '': '') @ e)"
    by (rule diagnostic_extractor) simp
  have "\<exists>e. console (snd (extract_text_from_text_file w s st))
          = console st @ [(''Error extracting text from '' @ ''file'' @ '' '' @ s @ '': '') @ e]"
  proof (cases "read_text w Utf8 s")
    case (Inr t)
    with assms show ?thesis by (simp add: extract_text_from_text_file_def)
  next
    case (Inl err)
    show ?thesis
    proof (cases err)
      case (OtherError m)
      with Inl show ?thesis by (simp add: extract_text_from_text_file_def)
    next
      case (UnicodeDecodeError m)
      show ?thesis
      proof (cases "read_text w Latin1 s")
        case (Inr t)
        with \<open>read_text w Utf8 s = Inl err\<close> UnicodeDecodeError assms show ?thesis
          by (simp add: extract_text_from_text_file_def)
      next
        case (Inl e2)
        with \<open>read_text w Utf8 s = Inl err\<close> UnicodeDecodeError show ?thesis
          by (simp add: extract_text_from_text_file_def)
      qed
    qed
  qed
  then obtain e where "console (snd (extract_text_from_text_file w s st))
          = console st @ [(''Error extracting text from '' @ ''file'' @ '' '' @ s @ '': '') @ e]"
    by blast
  with d [of e] show ?thesis by simp
qed

lemma failure_logged:
  assumes "extracted w s = None"
  shows "\<exists>line \<in> set (process_log w s). is_diagnostic_for s line"
proof -
  let ?e = "lower (snd (splitext w s))"
  have n: "fst (process_input w s init_state) = None"
    using assms by (simp add: extracted_def)
  consider (url) "is_url s"
    | (missing) "\<not> is_url s" "\<not> path_exists w s"
    | (pdf) "\<not> is_url s" "path_exists w s" "?e = ''.pdf''"
    | (docx) "\<not> is_url s" "path_exists w s" "?e = ''.docx''"
    | (csv) "\<not> is_url s" "path_exists w s" "?e = ''.csv''"
    | (plain) "\<not> is_url s" "path_exists w s"
        "?e \<in> set [''.txt'', ''.md'', ''.json'', ''.html'', ''.htm'']"
    | (other) "\<not> is_url s" "path_exists w s"
        "?e \<notin> set [''.pdf'', ''.docx'', ''.csv'', ''.txt'', ''.md'', ''.json'', ''.html'', ''.htm'']"
    by auto
  then show ?thesis
  proof cases
    case url
    note eq = process_input_url [OF url, of w init_state]
    from n show ?thesis unfolding process_log_def eq by (rule url_failure_logged)
  next
    case missing
    note eq = process_input_missing [OF missing, of init_state]
    show ?thesis unfolding process_log_def eq using diagnostic_not_found [of s] by simp
  next
    case pdf
    note eq = process_input_pdf [OF pdf, of init_state]
    from n show ?thesis unfolding process_log_def eq by (rule pdf_failure_logged)
  next
    case docx
    note eq = process_input_docx [OF docx, of init_state]
    from n show ?thesis unfolding process_log_def eq by (rule docx_failure_logged)
  next
    case csv
    note eq = process_input_csv [OF csv, of init_state]
    from n show ?thesis unfolding process_log_def eq by (rule csv_failure_logged)
  next
    case plain
    note eq = process_input_text [OF plain, of init_state]
    from n show ?thesis unfolding process_log_def eq by (rule text_file_failure_logged)
  next
    case other
    note eq = process_input_other [OF other, of init_state]
    from n show ?thesis unfolding process_log_def eq by (rule text_file_failure_logged)
  qed
qed

lemma kept_empty: "kept w srcs = [] \<longleftrightarrow> (\<forall>s \<in> set srcs. \<not> yields_content w s)"
  by (simp add: kept_def filter_empty_conv)

section \<open>When the run aborts for lack of content\<close>

lemma no_content_is_not_backend_report:
  "''Error calling OpenAI API: '' @ e \<noteq> no_content_message"
  by (simp add: no_content_message_def)

lemma abort_iff_no_content:
  "(fst (main w a) = Inl (SystemExit 1) \<and> last (console (snd (main w a))) = no_content_message)
   \<longleftrightarrow> kept w (inputs a) = []"
proof (cases "kept w (inputs a) = []")
  case True
  obtain st0 where c: "collect w a (inputs a) [] init_state = (kept w (inputs a), st0)"
    using collect_init [of w a] by blast
  have "main w a = (Inl (SystemExit 1), say no_content_message st0)"
    by (rule main_no_content [OF c True])
  with True show ?thesis by simp
next
  case False
  from main_exit_explained [OF False] have "exit_explained w (main w a)" by simp
  then consider "\<forall>n. fst (main w a) \<noteq> Inl (SystemExit n)" | "backend_failed w (main w a)"
    unfolding exit_explained_def by blast
  then have "\<not> (fst (main w a) = Inl (SystemExit 1)
                 \<and> last (console (snd (main w a))) = no_content_message)"
  proof cases
    case 1
    then show ?thesis by simp
  next
    case 2
    then obtain e where "last (console (snd (main w a))) = ''Error calling OpenAI API: '' @ e"
      unfolding backend_failed_def by blast
    then show ?thesis using no_content_is_not_backend_report [of e] by simp
  qed
  with False show ?thesis by simp
qed

lemma kept_skip:
  "\<not> yields_content w s \<Longrightarrow> kept w (xs @ s # ys) = kept w (xs @ ys)"
  by (simp add: kept_def)

section \<open>Claims about collecting the inputs\<close>

text \<open>
  Claim C6. The loop over the inputs keeps exactly the documents of the inputs that yield
  content, in input order, so an input that fails is skipped and the inputs after it are
  still processed; every input whose extraction returns nothing leaves a diagnostic line
  for it on the console; and the run ends with exit status 1 and the no-content message
  as its last line if and only if no input yields content.
\<close>

theorem failed_inputs_are_skipped:
  "fst (collect w a (inputs a) [] init_state) = kept w (inputs a)
   \<and> (\<forall>s \<in> set (inputs a). extracted w s = None \<longrightarrow>
        (\<exists>line \<in> set (console (snd (main w a))). is_diagnostic_for s line))
   \<and> ((fst (main w a) = Inl (SystemExit 1)
        \<and> last (console (snd (main w a))) = no_content_message)
       \<longleftrightarrow> (\<forall>s \<in> set (inputs a). \<not> yields_content w s))"
proof (intro conjI ballI impI)
  show "fst (collect w a (inputs a) [] init_state) = kept w (inputs a)"
    by (simp add: collect_fst)
next
  fix s assume s: "s \<in> set (inputs a)" and n: "extracted w s = None"
  from failure_logged [OF n] obtain line where
    l: "line \<in> set (process_log w s)" and d: "is_diagnostic_for s line" by blast
  from main_console [OF s l] d
  show "\<exists>line \<in> set (console (snd (main w a))). is_diagnostic_for s line" by blast
next
  show "(fst (main w a) = Inl (SystemExit 1)
         \<and> last (console (snd (main w a))) = no_content_message)
        \<longleftrightarrow> (\<forall>s \<in> set (inputs a). \<not> yields_content w s)"
    unfolding abort_iff_no_content kept_empty ..
qed

theorem failed_inputs_are_skipped_witness:
  "fst (collect (demo_world answering writable)
          (demo_args [''missing.txt'', ''notes.txt'', ''broken.txt''])
          [''missing.txt'', ''notes.txt'', ''broken.txt''] [] init_state) = [''hello'']
   \<and> (\<exists>line \<in> set (console (snd (main (demo_world answering writable)
                       (demo_args [''missing.txt'', ''notes.txt'', ''broken.txt''])))).
         is_diagnostic_for ''broken.txt'' line)
   \<and> fst (main (demo_world answering writable)
            (demo_args [''missing.txt'', ''notes.txt'', ''broken.txt''])) = Inr ''summary 0''
   \<and> fst (main (demo_world answering writable) (demo_args [''missing.txt'', ''broken.txt'']))
       = Inl (SystemExit 1)
   \<and> last (console (snd (main (demo_world answering writable)
                             (demo_args [''missing.txt'', ''broken.txt'']))))
       = no_content_message"
proof -
  let ?w = "demo_world answering writable"
  let ?a = "demo_args [''missing.txt'', ''notes.txt'', ''broken.txt'']"
  let ?b = "demo_args [''missing.txt'', ''broken.txt'']"
  have ia: "inputs ?a = [''missing.txt'', ''notes.txt'', ''broken.txt'']"
    by (simp add: demo_args_def)
  have k: "kept ?w (inputs ?a) = [''hello'']" by code_simp
  have m: "''broken.txt'' \<in> set (inputs ?a)" by (simp add: demo_args_def)
  have n: "extracted ?w ''broken.txt'' = None" by code_simp
  have r: "fst (main ?w ?a) = Inr ''summary 0''" by code_simp
  have all: "\<forall>s \<in> set (inputs ?b). \<not> yields_content ?w s" by code_simp
  from failed_inputs_are_skipped [of ?w ?a] k ia
  have 1: "fst (collect ?w ?a [''missing.txt'', ''notes.txt'', ''broken.txt''] [] init_state)
             = [''hello'']" by simp
  from failed_inputs_are_skipped [of ?w ?a] m n
  have 2: "\<exists>line \<in> set (console (snd (main ?w ?a))). is_diagnostic_for ''broken.txt'' line"
    by blast
  from failed_inputs_are_skipped [of ?w ?b] all
  have 3: "fst (main ?w ?b) = Inl (SystemExit 1)
           \<and> last (console (snd (main ?w ?b))) = no_content_message" by blast
  from 1 2 3 r show ?thesis by simp
qed

text \<open>
  Claim C10. An input whose extraction returns the empty string is dropped from the
  collected documents just as one whose extraction returns nothing; and when every input
  returns nothing or the empty string, the run ends with exit status 1 and the no-content
  message, without any completion call and without writing a file.
\<close>

theorem empty_extraction_counts_as_failure:
  "((extracted w s = None \<or> extracted w s = Some []) \<longrightarrow>
      fst (collect w a (xs @ s # ys) [] init_state) = fst (collect w a (xs @ ys) [] init_state))
   \<and> ((\<forall>s \<in> set (inputs a). extracted w s = None \<or> extracted w s = Some []) \<longrightarrow>
        fst (main w a) = Inl (SystemExit 1)
        \<and> last (console (snd (main w a))) = no_content_message
        \<and> llm_calls (snd (main w a)) = []
        \<and> files (snd (main w a)) = [])"
proof -
  have omitted: "fst (collect w a (xs @ s # ys) [] init_state)
                   = fst (collect w a (xs @ ys) [] init_state)"
    if "extracted w s = None \<or> extracted w s = Some []"
  proof -
    from that have "\<not> yields_content w s" by (auto simp: yields_content_def)
    then show ?thesis by (simp add: collect_fst kept_skip)
  qed
  have fatal: "fst (main w a) = Inl (SystemExit 1)
        \<and> last (console (snd (main w a))) = no_content_message
        \<and> llm_calls (snd (main w a)) = []
        \<and> files (snd (main w a)) = []"
    if h: "\<forall>s \<in> set (inputs a). extracted w s = None \<or> extracted w s = Some []"
  proof -
    have "\<forall>s \<in> set (inputs a). \<not> yields_content w s"
    proof
      fix s assume "s \<in> set (inputs a)"
      with h have "extracted w s = None \<or> extracted w s = Some []" by blast
      then show "\<not> yields_content w s" by (auto simp: yields_content_def)
    qed
    then have e: "kept w (inputs a) = []" by (simp add: kept_empty)
    obtain st0 where c: "collect w a (inputs a) [] init_state = (kept w (inputs a), st0)"
      and c0: "llm_calls st0 = []" and f0: "files st0 = []"
      using collect_init [of w a] by blast
    have "main w a = (Inl (SystemExit 1), say no_content_message st0)"
      by (rule main_no_content [OF c e])
    with c0 f0 show ?thesis by simp
  qed
  from omitted fatal show ?thesis by blast
qed

theorem empty_extraction_counts_as_failure_witness:
  "extracted (demo_world answering writable) ''empty.txt'' = Some []
   \<and> fst (collect (demo_world answering writable) (demo_args [])
            [''notes.txt'', ''empty.txt'', ''page.htm''] [] init_state) = [''hello'', ''hello'']
   \<and> fst (main (demo_world answering writable) (demo_args [''empty.txt''])) = Inl (SystemExit 1)
   \<and> console (snd (main (demo_world answering writable) (demo_args [''empty.txt''])))
       = [''Processing file: empty.txt'', no_content_message]
   \<and> llm_calls (snd (main (demo_world answering writable) (demo_args [''empty.txt'']))) = []"
proof -
  let ?w = "demo_world answering writable"
  let ?a = "demo_args [''empty.txt'']"
  have e: "extracted ?w ''empty.txt'' = Some []" by code_simp
  have all: "\<forall>s \<in> set (inputs ?a). extracted ?w s = None \<or> extracted ?w s = Some []"
    by code_simp
  have k: "fst (collect ?w (demo_args []) ([''notes.txt''] @ [''page.htm'']) [] init_state)
             = [''hello'', ''hello'']" by code_simp
  have c: "console (snd (main ?w ?a)) = [''Processing file: empty.txt'', no_content_message]"
    by code_simp
  from empty_extraction_counts_as_failure
         [where w = ?w and s = "''empty.txt''" and a = "demo_args []"
            and xs = "[''notes.txt'']" and ys = "[''page.htm'']"] e k
  have 1: "fst (collect ?w (demo_args []) [''notes.txt'', ''empty.txt'', ''page.htm''] []
                 init_state) = [''hello'', ''hello'']" by simp
  from empty_extraction_counts_as_failure
         [where w = ?w and a = ?a and s = "''empty.txt''" and xs = "[]" and ys = "[]"] all
  have 2: "fst (main ?w ?a) = Inl (SystemExit 1) \<and> llm_calls (snd (main ?w ?a)) = []"
    by blast
  from e 1 2 c show ?thesis by simp
qed

section \<open>The prompts a run sends\<close>

lemma main_calls:
  assumes "fst (collect w a (inputs a) [] init_state) = docs" and "docs \<noteq> []"
  shows "llm_calls (snd (main w a))
           = llm_calls (snd (summarise w a (combine docs) (snd (collect w a (inputs a) [] init_state))))"
    and "fst (main w a)
           = fst (summarise w a (combine docs) (snd (collect w a (inputs a) [] init_state)))"
proof -
  let ?st0 = "snd (collect w a (inputs a) [] init_state)"
  have c: "collect w a (inputs a) [] init_state = (docs, ?st0)"
    using assms(1) by (cases "collect w a (inputs a) [] init_state") simp
  obtain r1 s1 where x: "summarise w a (combine docs) ?st0 = (r1, s1)"
    by (cases "summarise w a (combine docs) ?st0")
  have m: "main w a = (case r1 of Inl f \<Rightarrow> (Inl f, s1)
                       | Inr final \<Rightarrow> (Inr final, emit w a final s1))"
    using main_content [OF c assms(2)] x by simp
  show "llm_calls (snd (main w a)) = llm_calls (snd (summarise w a (combine docs) ?st0))"
    unfolding m x by (cases r1) (simp_all add: emit_calls)
  show "fst (main w a) = fst (summarise w a (combine docs) ?st0)"
    unfolding m x by (cases r1) simp_all
qed

lemma collect_snd_calls: "llm_calls (snd (collect w a (inputs a) [] init_state)) = []"
  by (simp add: collect_calls init_state_def)

lemma length_banner: "length banner = 82"
  by (simp add: banner_def)

lemma length_combine_Nil: "length (combine []) = 82"
  by (simp add: combine_def length_banner)


lemma process_chunks_success:
  assumes ok: "\<forall>i p. completion w i p = Inr (reply i p)"
  shows "fst (process_chunks w a n i cs rs st)
           = Inr (rs @ map (\<lambda>k. reply (length (llm_calls st) + k) (make_prompt (cs ! k) (query a)))
                         [0..<length cs])
         \<and> llm_calls (snd (process_chunks w a n i cs rs st))
           = llm_calls st @ map (\<lambda>c. make_prompt c (query a)) cs"
proof (induction cs arbitrary: i rs st)
  case Nil
  show ?case by simp
next
  case (Cons c cs)
  let ?P = "\<lambda>c. make_prompt c (query a)"
  let ?L = "length (llm_calls st)"
  let ?s = "if verbose a
            then say (''Processing chunk '' @ str_nat (i + 1) @ ''/'' @ str_nat n) st else st"
  let ?s1 = "?s\<lparr>llm_calls := llm_calls ?s @ [?P c]\<rparr>"
  have L: "length (llm_calls ?s) = ?L" by simp
  have "completion w (length (llm_calls ?s)) (?P c) = Inr (reply ?L (?P c))"
    using ok L by simp
  then have x: "process_with_llm w c (query a) ?s = (Inr (reply ?L (?P c)), ?s1)"
    by (rule process_with_llm_answered)
  have step: "process_chunks w a n i (c # cs) rs st
                = process_chunks w a n (i + 1) cs (rs @ [reply ?L (?P c)]) ?s1"
    using x by simp
  have c1: "llm_calls ?s1 = llm_calls st @ [?P c]" by simp
  have l1: "length (llm_calls ?s1) = Suc ?L" by simp
  note ih = Cons.IH [of "i + 1" "rs @ [reply ?L (?P c)]" ?s1]
  have m: "map (\<lambda>k. reply (?L + k) (?P ((c # cs) ! k))) [0..<length (c # cs)]
             = reply ?L (?P c) # map (\<lambda>k. reply (Suc ?L + k) (?P (cs ! k))) [0..<length cs]"
    by (simp add: map_upt_Suc del: upt_Suc)
  show ?case
    unfolding step m using ih unfolding l1 c1 by simp
qed


section \<open>Runs in the concrete world\<close>


lemma demo_long_input:
  "process_input (demo_world backend writer) ''long.txt'' st
     = (Some (replicate 5000 (CHR ''b'')), say ''Processing file: long.txt'' st)"
proof -
  let ?w = "demo_world backend writer"
  have 1: "\<not> is_url ''long.txt''" by code_simp
  have 2: "path_exists ?w ''long.txt''" by (simp add: demo_world_def)
  have e: "lower (snd (posix_splitext ''long.txt'')) = ''.txt''" by code_simp
  have 3: "lower (snd (splitext ?w ''long.txt''))
             \<in> set [''.txt'', ''.md'', ''.json'', ''.html'', ''.htm'']"
    using e by (simp add: demo_world_def)
  have 4: "read_text ?w Utf8 ''long.txt'' = Inr (replicate 5000 (CHR ''b''))"
    by (simp add: demo_world_def demo_read_def)
  show ?thesis
    unfolding process_input_text [OF 1 2 3] extract_text_from_text_file_def 4 by simp
qed


lemma demo_long_collect:
  "fst (collect (demo_world backend writer) (demo_args [''long.txt''])
          (inputs (demo_args [''long.txt''])) [] init_state) = [replicate 5000 (CHR ''b'')]"
  by (simp add: demo_args_def demo_long_input)


lemma demo_long_length: "length (combine [replicate 5000 (CHR ''b'')]) = 5082"
  by (simp add: combine_def length_banner)

lemma demo_chunks:
  "split_text_into_chunks (demo_world backend writer) body 2000 200
     = [take 2000 body, drop 1800 body]"
  by (simp add: split_text_into_chunks_def demo_world_def)

lemma demo_completion: "completion (demo_world backend writer) = backend"
  by (simp add: demo_world_def)

section \<open>Claims about the size decision and the chunk pipeline\<close>




lemma summarise_success:
  assumes big: "length body > 4000" and c0: "llm_calls st = []"
    and ok: "\<forall>i p. completion w i p = Inr (reply i p)"
    and ch: "split_text_into_chunks w body 2000 200 = chunks"
    and rs: "results = map (\<lambda>i. reply i (make_prompt (chunks ! i) (query a))) [0..<length chunks]"
  shows "(length chunks > 1 \<longrightarrow>
            llm_calls (snd (summarise w a body st))
              = map (\<lambda>c. make_prompt c (query a)) chunks
                @ [make_prompt (join (NL @ NL) results) (Some reduce_directive)]
            \<and> fst (summarise w a body st)
              = Inr (reply (length chunks)
                       (make_prompt (join (NL @ NL) results) (Some reduce_directive))))
         \<and> (length chunks = 1 \<longrightarrow>
            llm_calls (snd (summarise w a body st)) = [make_prompt (chunks ! 0) (query a)]
            \<and> fst (summarise w a body st) = Inr (results ! 0))"
proof -
  let ?P = "\<lambda>c. make_prompt c (query a)"
  let ?s2 = "if verbose a
            then say (''Split content into '' @ str_nat (length chunks) @ '' chunks'')
                   (say (''Content size ('' @ str_nat (length body)
                         @ '' chars) exceeds processing limit. Chunking content...'') st)
            else st"
  let ?X = "process_chunks w a (length chunks) 0 chunks [] ?s2"
  obtain r1 s1 where x: "?X = (r1, s1)" by (cases ?X)
  have s20: "llm_calls ?s2 = []" using c0 by simp
  from process_chunks_success [OF ok, of a "length chunks" 0 chunks "[]" ?s2]
  have r1: "r1 = Inr results" and calls: "llm_calls s1 = map ?P chunks"
    using x s20 rs by simp_all
  have lr: "length results = length chunks" using rs by simp
  have x': "process_chunks w a (length (split_text_into_chunks w body 2000 200)) 0
           (split_text_into_chunks w body 2000 200) []
           (if verbose a
            then say (''Split content into ''
                      @ str_nat (length (split_text_into_chunks w body 2000 200)) @ '' chunks'')
                   (say (''Content size ('' @ str_nat (length body)
                         @ '' chars) exceeds processing limit. Chunking content...'') st)
            else st) = (r1, s1)"
    unfolding ch by (rule x)
  note eq = summarise_chunked [OF big x']
  have several: "llm_calls (snd (summarise w a body st))
              = map ?P chunks @ [make_prompt (join (NL @ NL) results) (Some reduce_directive)]
            \<and> fst (summarise w a body st)
              = Inr (reply (length chunks)
                       (make_prompt (join (NL @ NL) results) (Some reduce_directive)))"
    if "length chunks > 1"
  proof -
    let ?u = "if verbose a then say ''Combining results from multiple chunks...'' s1 else s1"
    let ?R = "make_prompt (join (NL @ NL) results) (Some reduce_directive)"
    have lu: "length (llm_calls ?u) = length chunks" using calls by simp
    have "completion w (length (llm_calls ?u)) ?R = Inr (reply (length chunks) ?R)"
      using ok lu by simp
    from process_with_llm_answered [OF this]
    have "process_with_llm w (join (NL @ NL) results) (Some reduce_directive) ?u
            = (Inr (reply (length chunks) ?R), ?u\<lparr>llm_calls := llm_calls ?u @ [?R]\<rparr>)" .
    moreover have "summarise w a body st
            = process_with_llm w (join (NL @ NL) results) (Some reduce_directive) ?u"
      unfolding eq using r1 that lr by simp
    ultimately show ?thesis using calls by simp
  qed
  have single: "llm_calls (snd (summarise w a body st)) = [make_prompt (chunks ! 0) (query a)]
            \<and> fst (summarise w a body st) = Inr (results ! 0)"
    if "length chunks = 1"
  proof -
    from that obtain c where c: "chunks = [c]" by (cases chunks) simp_all
    from lr that obtain r where r: "results = [r]" by (cases results) simp_all
    have "summarise w a body st = (Inr r, s1)"
      unfolding eq using r1 r by simp
    with calls c r show ?thesis by simp
  qed
  from several single show ?thesis by blast
qed

lemma str_nat_small:
  "str_nat 0 = ''0''" "str_nat (Suc 0) = ''1''" "str_nat (Suc (Suc 0)) = ''2''"
  by code_simp+

text \<open>
  Claim C4. On the chunk path (content extracted, corpus longer than 4000 characters) with
  a backend that answers every call: one completion call is made per chunk, in chunk
  order, each with the user's query (or the default); with more than one chunk a single
  further call follows, whose instruction is the fixed combine-summaries directive and
  whose content is the chunk results in order, joined by blank lines, and its answer is
  the final result; with exactly one chunk that chunk's answer is the final result and
  no further call is made.
\<close>

theorem chunk_map_reduce:
  assumes "fst (collect w a (inputs a) [] init_state) = docs"
    and "length (combine docs) > 4000"
    and "split_text_into_chunks w (combine docs) 2000 200 = chunks"
    and "\<forall>i p. completion w i p = Inr (reply i p)"
    and "results = map (\<lambda>i. reply i (make_prompt (chunks ! i) (query a))) [0..<length chunks]"
  shows "(length chunks > 1 \<longrightarrow>
            llm_calls (snd (main w a))
              = map (\<lambda>c. make_prompt c (query a)) chunks
                @ [make_prompt (join (NL @ NL) results) (Some reduce_directive)]
            \<and> fst (main w a)
              = Inr (reply (length chunks)
                       (make_prompt (join (NL @ NL) results) (Some reduce_directive))))
         \<and> (length chunks = 1 \<longrightarrow>
            llm_calls (snd (main w a)) = [make_prompt (chunks ! 0) (query a)]
            \<and> fst (main w a) = Inr (results ! 0))"
proof -
  have ne: "docs \<noteq> []"
  proof
    assume "docs = []"
    with assms(2) show False by (simp add: length_combine_Nil)
  qed
  note mc = main_calls [OF assms(1) ne]
  show ?thesis
    unfolding mc
    by (rule summarise_success [OF assms(2) collect_snd_calls assms(4) assms(3) assms(5)])
qed

theorem chunk_map_reduce_witness:
  "llm_calls (snd (main (demo_world answering writable) (demo_args [''long.txt''])))
     = [make_prompt (take 2000 (combine [replicate 5000 (CHR ''b'')])) None,
        make_prompt (drop 1800 (combine [replicate 5000 (CHR ''b'')])) None,
        make_prompt (''summary 0'' @ NL @ NL @ ''summary 1'') (Some reduce_directive)]
   \<and> fst (main (demo_world answering writable) (demo_args [''long.txt'']))
     = Inr ''summary 2''"
proof -
  let ?w = "demo_world answering writable"
  let ?b = "demo_args [''long.txt'']"
  let ?corpus = "combine [replicate 5000 (CHR ''b'')]"
  let ?reply = "\<lambda>i (p :: string). ''summary '' @ str_nat i"
  let ?chunks = "[take 2000 ?corpus, drop 1800 ?corpus]"
  let ?results = "map (\<lambda>i. ?reply i (make_prompt (?chunks ! i) (query ?b))) [0..<length ?chunks]"
  have qb: "query ?b = None" by (simp add: demo_args_def)
  have big: "length ?corpus > 4000" by (simp add: demo_long_length)
  have ok: "\<forall>i p. completion ?w i p = Inr (?reply i p)"
    by (simp add: demo_completion answering_def)
  have ch: "split_text_into_chunks ?w ?corpus 2000 200 = ?chunks" by (rule demo_chunks)
  have several: "length ?chunks > 1" by simp
  have res: "?results = [''summary '' @ str_nat 0, ''summary '' @ str_nat 1]"
    by (simp add: upt_rec)
  from chunk_map_reduce [OF demo_long_collect big ch ok refl] several
  have "llm_calls (snd (main ?w ?b))
              = map (\<lambda>c. make_prompt c (query ?b)) ?chunks
                @ [make_prompt (join (NL @ NL) ?results) (Some reduce_directive)]
            \<and> fst (main ?w ?b)
              = Inr (?reply (length ?chunks)
                       (make_prompt (join (NL @ NL) ?results) (Some reduce_directive)))"
    by blast
  then show ?thesis unfolding res qb by (simp add: str_nat_small)
qed

section \<open>The output step\<close>










section \<open>Consoles that differ by progress messages\<close>

lemma only_adds_extra_front: "P y \<Longrightarrow> only_adds P xs ys \<Longrightarrow> only_adds P xs (y # ys)"
  by (cases xs) simp_all

lemma only_adds_refl: "only_adds P xs xs"
  by (induction xs) simp_all

lemma only_adds_prefix_extra:
  "list_all P zs \<Longrightarrow> only_adds P xs ys \<Longrightarrow> only_adds P xs (zs @ ys)"
  by (induction zs) (simp_all add: only_adds_extra_front)

lemma only_adds_append:
  "only_adds P xs ys \<Longrightarrow> only_adds P xs' ys' \<Longrightarrow> only_adds P (xs @ xs') (ys @ ys')"
proof (induction P xs ys rule: only_adds.induct)
  case (1 P ys)
  then show ?case by (simp add: only_adds_prefix_extra)
next
  case (2 P x xs)
  then show ?case by simp
next
  case (3 P x xs y ys)
  from "3.prems"(1) consider "x = y" "only_adds P xs ys" | "P y" "only_adds P (x # xs) ys"
    by auto
  then show ?case
  proof cases
    case 1
    with "3.IH"(1) "3.prems"(2) have "only_adds P (xs @ xs') (ys @ ys')" by simp
    with 1 show ?thesis by simp
  next
    case 2
    with "3.IH"(2) "3.prems"(2) have "only_adds P ((x # xs) @ xs') (ys @ ys')" by simp
    with 2 show ?thesis by simp
  qed
qed

lemma only_adds_snoc_extra: "only_adds P xs ys \<Longrightarrow> P y \<Longrightarrow> only_adds P xs (ys @ [y])"
  using only_adds_append [of P xs ys "[]" "[y]"] by simp

lemma endswith_append: "endswith (p @ s) s"
  by (simp add: endswith_def)

lemma progress_extracted: "is_progress_message (''Extracted '' @ x)"
  unfolding is_progress_message_def using startswith_append [of "''Extracted ''" x] by simp

lemma progress_content_size:
  "is_progress_message
     (''Content size ('' @ x @ '' chars) exceeds processing limit. Chunking content...'')"
  unfolding is_progress_message_def
  using startswith_append
          [of "''Content size (''"
              "x @ '' chars) exceeds processing limit. Chunking content...''"]
        endswith_append
          [of "''Content size ('' @ x" "'' chars) exceeds processing limit. Chunking content...''"]
  by simp

lemma progress_split: "is_progress_message (''Split content into '' @ x @ '' chunks'')"
  unfolding is_progress_message_def
  using startswith_append [of "''Split content into ''" "x @ '' chunks''"]
        endswith_append [of "''Split content into '' @ x" "'' chunks''"]
  by simp

lemma progress_chunk: "is_progress_message (''Processing chunk '' @ x)"
  unfolding is_progress_message_def using startswith_append [of "''Processing chunk ''" x] by simp

lemma progress_combining: "is_progress_message ''Combining results from multiple chunks...''"
  unfolding is_progress_message_def by simp

lemma quieter_say: "quieter s t \<Longrightarrow> quieter (say m s) (say m t)"
  unfolding quieter_def using only_adds_append [of is_progress_message _ _ "[m]" "[m]"]
  by simp

lemma quieter_progress: "quieter s t \<Longrightarrow> is_progress_message m \<Longrightarrow> quieter s (say m t)"
  unfolding quieter_def by (simp add: only_adds_snoc_extra)

lemma quieter_log:
  "quieter s t \<Longrightarrow> quieter (s\<lparr>console := console s @ l\<rparr>) (t\<lparr>console := console t @ l\<rparr>)"
  unfolding quieter_def by (simp add: only_adds_append only_adds_refl)

lemma quieter_call:
  "quieter s t \<Longrightarrow> quieter (s\<lparr>llm_calls := llm_calls s @ [p]\<rparr>) (t\<lparr>llm_calls := llm_calls t @ [p]\<rparr>)"
  unfolding quieter_def by simp

lemma quieter_file:
  "quieter s t \<Longrightarrow> quieter (s\<lparr>files := files s @ [f]\<rparr>) (t\<lparr>files := files t @ [f]\<rparr>)"
  unfolding quieter_def by simp

lemma collect_quieter:
  assumes q: "\<not> verbose q"
  shows "quieter s t \<Longrightarrow>
         quieter (snd (collect w q srcs acc s)) (snd (collect w v srcs acc t))"
proof (induction srcs arbitrary: acc s t)
  case Nil
  then show ?case by simp
next
  case (Cons x xs)
  let ?s1 = "s\<lparr>console := console s @ process_log w x\<rparr>"
  let ?t1 = "t\<lparr>console := console t @ process_log w x\<rparr>"
  have r1: "quieter ?s1 ?t1" using Cons.prems by (rule quieter_log)
  show ?case
  proof (cases "yields_content w x")
    case False
    then have "collect w q (x # xs) acc s = collect w q xs acc ?s1"
      and "collect w v (x # xs) acc t = collect w v xs acc ?t1"
      by (auto simp: process_input_decomp yields_content_def split: option.splits)
    then show ?thesis using Cons.IH [OF r1] by simp
  next
    case True
    then obtain c where c: "extracted w x = Some c" "c \<noteq> []"
      by (auto simp: yields_content_def split: option.splits)
    let ?m = "''Extracted '' @ str_nat (length c) @ '' characters from '' @ x"
    let ?t2 = "if verbose v then say ?m ?t1 else ?t1"
    have r2: "quieter ?s1 ?t2"
      using r1 quieter_progress [OF r1 progress_extracted] by simp
    have "collect w q (x # xs) acc s = collect w q xs (acc @ [c]) ?s1"
      using c q by (simp add: process_input_decomp)
    moreover have "collect w v (x # xs) acc t = collect w v xs (acc @ [c]) ?t2"
      using c by (simp add: process_input_decomp)
    ultimately show ?thesis using Cons.IH [OF r2] by simp
  qed
qed

lemma process_with_llm_quieter:
  assumes "quieter s t"
  shows "fst (process_with_llm w c p s) = fst (process_with_llm w c p t)
         \<and> quieter (snd (process_with_llm w c p s)) (snd (process_with_llm w c p t))"
proof -
  have l: "llm_calls t = llm_calls s" using assms by (simp add: quieter_def)
  show ?thesis
  proof (cases "completion w (length (llm_calls s)) (make_prompt c p)")
    case (Inr r)
    then have "completion w (length (llm_calls t)) (make_prompt c p) = Inr r" using l by simp
    with Inr quieter_call [OF assms] l show ?thesis
      by (simp add: process_with_llm_answered)
  next
    case (Inl e)
    then have "completion w (length (llm_calls t)) (make_prompt c p) = Inl e" using l by simp
    with Inl quieter_log [OF quieter_call [OF assms]] l show ?thesis
      by (simp add: process_with_llm_raised)
  qed
qed

lemma process_chunks_quieter:
  assumes q: "\<not> verbose q" and eq: "query q = query v"
  shows "quieter s t \<Longrightarrow>
         fst (process_chunks w q n i cs rs s) = fst (process_chunks w v m j cs rs t)
         \<and> quieter (snd (process_chunks w q n i cs rs s)) (snd (process_chunks w v m j cs rs t))"
proof (induction cs arbitrary: i j rs s t)
  case Nil
  then show ?case by simp
next
  case (Cons c cs)
  let ?t0 = "if verbose v
            then say (''Processing chunk '' @ str_nat (j + 1) @ ''/'' @ str_nat m) t else t"
  have r0: "quieter s ?t0"
    using Cons.prems quieter_progress [OF Cons.prems progress_chunk] by simp
  obtain r1 s1 where x: "process_with_llm w c (query q) s = (r1, s1)"
    by (cases "process_with_llm w c (query q) s")
  obtain r2 t1 where y: "process_with_llm w c (query q) ?t0 = (r2, t1)"
    by (cases "process_with_llm w c (query q) ?t0")
  from process_with_llm_quieter [OF r0, of w c "query q"] x y
  have same: "r2 = r1" and r1q: "quieter s1 t1" by simp_all
  have sa: "process_chunks w q n i (c # cs) rs s =
      (case r1 of Inl f \<Rightarrow> (Inl f, s1)
       | Inr r \<Rightarrow> process_chunks w q n (i + 1) cs (rs @ [r]) s1)"
    using x q by simp
  have sb: "process_chunks w v m j (c # cs) rs t =
      (case r1 of Inl f \<Rightarrow> (Inl f, t1)
       | Inr r \<Rightarrow> process_chunks w v m (j + 1) cs (rs @ [r]) t1)"
    using y same eq by simp
  show ?case
  proof (cases r1)
    case (Inl f)
    with r1q show ?thesis unfolding sa sb by simp
  next
    case (Inr r)
    with Cons.IH [OF r1q, of "i + 1" "rs @ [r]" "j + 1"] show ?thesis unfolding sa sb by simp
  qed
qed

lemma summarise_quieter:
  assumes q: "\<not> verbose q" and eq: "query q = query v" and st: "quieter s t"
  shows "fst (summarise w q body s) = fst (summarise w v body t)
         \<and> quieter (snd (summarise w q body s)) (snd (summarise w v body t))"
proof (cases "length body > 4000")
  case False
  then show ?thesis
    using process_with_llm_quieter [OF st, of w body "query q"] eq
    by (simp add: summarise_direct)
next
  case True
  let ?chunks = "split_text_into_chunks w body 2000 200"
  let ?s2 = "if verbose q
            then say (''Split content into '' @ str_nat (length ?chunks) @ '' chunks'')
                   (say (''Content size ('' @ str_nat (length body)
                         @ '' chars) exceeds processing limit. Chunking content...'') s)
            else s"
  let ?t2 = "if verbose v
            then say (''Split content into '' @ str_nat (length ?chunks) @ '' chunks'')
                   (say (''Content size ('' @ str_nat (length body)
                         @ '' chars) exceeds processing limit. Chunking content...'') t)
            else t"
  have s2: "?s2 = s" using q by simp
  have r2: "quieter ?s2 ?t2"
    unfolding s2
    using st quieter_progress [OF quieter_progress [OF st progress_content_size] progress_split]
    by simp
  let ?X = "process_chunks w q (length ?chunks) 0 ?chunks [] ?s2"
  let ?Y = "process_chunks w v (length ?chunks) 0 ?chunks [] ?t2"
  obtain r1 s1 where x: "?X = (r1, s1)" by (cases ?X)
  obtain r1' t1 where y: "?Y = (r1', t1)" by (cases ?Y)
  from process_chunks_quieter [OF q eq r2, of w "length ?chunks" 0 ?chunks "[]" "length ?chunks" 0]
    x y
  have same: "r1' = r1" and r1q: "quieter s1 t1" by simp_all
  note ea = summarise_chunked [OF True x]
  note eb = summarise_chunked [OF True y [unfolded same]]
  show ?thesis
  proof (cases r1)
    case (Inl f)
    with r1q show ?thesis unfolding ea eb by simp
  next
    case (Inr results)
    show ?thesis
    proof (cases "length results > 1")
      case True
      let ?u = "if verbose q then say ''Combining results from multiple chunks...'' s1 else s1"
      let ?v = "if verbose v then say ''Combining results from multiple chunks...'' t1 else t1"
      have "quieter ?u ?v"
        using q r1q quieter_progress [OF r1q progress_combining] by simp
      from process_with_llm_quieter [OF this, of w "join (NL @ NL) results" "Some reduce_directive"]
      show ?thesis unfolding ea eb using Inr True by simp
    next
      case False
      with Inr r1q show ?thesis unfolding ea eb by (cases results) simp_all
    qed
  qed
qed

lemma emit_quieter:
  assumes o: "output_path q = output_path v" and st: "quieter s t"
  shows "quieter (emit w q final s) (emit w v final t)"
proof (cases "output_path v")
  case None
  with o show ?thesis
    by (simp add: emit_def print_framed_def quieter_say [OF quieter_say [OF quieter_say [OF st]]])
next
  case (Some path)
  show ?thesis
  proof (cases "path = []")
    case True
    with Some o show ?thesis
      by (simp add: emit_def print_framed_def quieter_say [OF quieter_say [OF quieter_say [OF st]]])
  next
    case False
    show ?thesis
    proof (cases "write_file w path final")
      case None
      with Some False o show ?thesis
        by (simp add: emit_def quieter_say [OF quieter_file [OF st]])
    next
      case (Some e)
      with \<open>output_path v = Some path\<close> False o show ?thesis
        by (simp add: emit_def quieter_say [OF quieter_say [OF st]])
    qed
  qed
qed

lemma quieter_init: "quieter init_state init_state"
  by (simp add: quieter_def only_adds_refl)

lemma main_quieter:
  assumes q: "\<not> verbose q" and i: "inputs q = inputs v" and eq: "query q = query v"
    and o: "output_path q = output_path v"
  shows "fst (main w q) = fst (main w v) \<and> quieter (snd (main w q)) (snd (main w v))"
proof -
  obtain s0 where cq: "collect w q (inputs q) [] init_state = (kept w (inputs q), s0)"
    using collect_init [of w q] by blast
  obtain t0 where cv: "collect w v (inputs v) [] init_state = (kept w (inputs v), t0)"
    using collect_init [of w v] by blast
  have r0: "quieter s0 t0"
    using collect_quieter [OF q quieter_init, of w "inputs q" "[]" v] cq cv i by simp
  show ?thesis
  proof (cases "kept w (inputs q) = []")
    case True
    then have e: "kept w (inputs v) = []" using i by simp
    show ?thesis
      unfolding main_no_content [OF cq True] main_no_content [OF cv e]
      using quieter_say [OF r0] by simp
  next
    case False
    then have ne: "kept w (inputs v) \<noteq> []" using i by simp
    let ?body = "combine (kept w (inputs q))"
    obtain r1 s1 where x: "summarise w q ?body s0 = (r1, s1)"
      by (cases "summarise w q ?body s0")
    obtain r1' t1 where y: "summarise w v ?body t0 = (r1', t1)"
      by (cases "summarise w v ?body t0")
    from summarise_quieter [OF q eq r0, of w ?body] x y
    have same: "r1' = r1" and r1q: "quieter s1 t1" by simp_all
    have ma: "main w q = (case r1 of Inl f \<Rightarrow> (Inl f, s1)
                          | Inr final \<Rightarrow> (Inr final, emit w q final s1))"
      using main_content [OF cq False] x by simp
    have mb: "main w v = (case r1 of Inl f \<Rightarrow> (Inl f, t1)
                          | Inr final \<Rightarrow> (Inr final, emit w v final t1))"
      using main_content [OF cv ne] y same i by simp
    show ?thesis
    proof (cases r1)
      case (Inl f)
      with r1q show ?thesis unfolding ma mb by simp
    next
      case (Inr final)
      with emit_quieter [OF o r1q, of w final] show ?thesis unfolding ma mb by simp
    qed
  qed
qed

section \<open>Claims about the verbose flag\<close>

text \<open>
  Claim C8. Two runs on the same inputs, in the same world, that differ only in the
  verbose flag end the same way (the same final result or the same failure), write the
  same files with the same content, and send the same prompts to the backend. What the
  verbose run prints is what the quiet run prints, line for line and in the same order,
  with progress messages inserted and nothing else: the flag only adds progress messages.
\<close>

theorem verbose_does_not_alter_result:
  "fst (main w (a\<lparr>verbose := v\<rparr>)) = fst (main w (a\<lparr>verbose := v'\<rparr>))
   \<and> files (snd (main w (a\<lparr>verbose := v\<rparr>))) = files (snd (main w (a\<lparr>verbose := v'\<rparr>)))
   \<and> llm_calls (snd (main w (a\<lparr>verbose := v\<rparr>)))
       = llm_calls (snd (main w (a\<lparr>verbose := v'\<rparr>)))
   \<and> only_adds is_progress_message
         (console (snd (main w (a\<lparr>verbose := False\<rparr>))))
         (console (snd (main w (a\<lparr>verbose := True\<rparr>))))"
proof -
  have "agree (main w (a\<lparr>verbose := v\<rparr>)) (main w (a\<lparr>verbose := v'\<rparr>))"
    by (rule main_agree) simp_all
  moreover have "quieter (snd (main w (a\<lparr>verbose := False\<rparr>)))
                         (snd (main w (a\<lparr>verbose := True\<rparr>)))"
    using main_quieter [of "a\<lparr>verbose := False\<rparr>" "a\<lparr>verbose := True\<rparr>" w] by simp
  ultimately show ?thesis by (simp add: agree_def quieter_def)
qed

theorem verbose_does_not_alter_result_witness:
  "fst (main (demo_world answering writable)
          ((demo_args [''notes.txt''])\<lparr>output_path := Some ''out.txt'', verbose := False\<rparr>))
     = Inr ''summary 0''
   \<and> files (snd (main (demo_world answering writable)
          ((demo_args [''notes.txt''])\<lparr>output_path := Some ''out.txt'', verbose := False\<rparr>)))
     = [(''out.txt'', ''summary 0'')]
   \<and> console (snd (main (demo_world answering writable)
          ((demo_args [''notes.txt''])\<lparr>verbose := True\<rparr>)))
     = [''Processing file: notes.txt'', ''Extracted 5 characters from notes.txt'',
        NL @ frame @ NL, ''summary 0'', NL @ frame]
   \<and> only_adds is_progress_message
        (console (snd (main (demo_world answering writable)
           ((demo_args [''notes.txt''])\<lparr>verbose := False\<rparr>))))
        [''Processing file: notes.txt'', ''Extracted 5 characters from notes.txt'',
         NL @ frame @ NL, ''summary 0'', NL @ frame]"
proof -
  let ?w = "demo_world answering writable"
  let ?a = "(demo_args [''notes.txt''])\<lparr>output_path := Some ''out.txt''\<rparr>"
  let ?b = "demo_args [''notes.txt'']"
  have r: "fst (main ?w (?a\<lparr>verbose := True\<rparr>)) = Inr ''summary 0''"
    by code_simp
  have f: "files (snd (main ?w (?a\<lparr>verbose := True\<rparr>))) = [(''out.txt'', ''summary 0'')]"
    by code_simp
  have c: "console (snd (main ?w (?b\<lparr>verbose := True\<rparr>)))
             = [''Processing file: notes.txt'', ''Extracted 5 characters from notes.txt'',
                NL @ frame @ NL, ''summary 0'', NL @ frame]"
    by code_simp
  from verbose_does_not_alter_result
    [where w = ?w and a = ?a and v = False and v' = True] r f
  have 1: "fst (main ?w (?a\<lparr>verbose := False\<rparr>)) = Inr ''summary 0''
           \<and> files (snd (main ?w (?a\<lparr>verbose := False\<rparr>))) = [(''out.txt'', ''summary 0'')]"
    by simp
  from verbose_does_not_alter_result [where w = ?w and a = ?b and v = False and v' = True]
  have 2: "only_adds is_progress_message
             (console (snd (main ?w (?b\<lparr>verbose := False\<rparr>))))
             (console (snd (main ?w (?b\<lparr>verbose := True\<rparr>))))"
    by blast
  from 1 2 c show ?thesis by simp
qed

end
